theory Spec2Isabelle
  imports Complex_Main "HOL-Library.Word" "HOL-Library.Log_Nat"
begin

section \<open>Images, the image heap and the log\<close>

text \<open>
  A PIL image is a grid of pixels with a width and a height. The pixel type \<open>'p\<close>
  stands for the image's mode: an image made by \<open>Image.new(pil_img.mode, ...)\<close> has
  the pixel type of \<open>pil_img\<close>. The grid is a list of \<open>height\<close> rows of \<open>width\<close>
  pixels each.
\<close>

record 'p image =
  width :: nat
  height :: nat
  rows :: "'p list list"

definition getpixel :: "'p image \<Rightarrow> nat \<Rightarrow> nat \<Rightarrow> 'p" where
  "getpixel im x y = rows im ! y ! x"

definition wf_image :: "'p image \<Rightarrow> bool" where
  "wf_image im \<longleftrightarrow>
     length (rows im) = height im \<and> list_all (\<lambda>row. length row = width im) (rows im)"

datatype py_error =
  ValueError | UnidentifiedImageError | SystemError | IsADirectoryError | FileNotFoundError
  | OverflowError | MemoryError

datatype level = INFO | ERROR

text \<open>The messages of \<open>logging.info\<close> and \<open>logging.error\<close>, by their parameters.\<close>

datatype 'p event =
    Adding_margin int int int int 'p
  | Processing_image string string
  | Image_file_not_found string string
  | Created_directory string
  | Saved_hexagonal_image string

text \<open>
  A file of the file system is a directory, a file that \<open>Image.open\<close> decodes, or a
  file that it does not. \<open>Image_data im\<close> holds the image that
  \<open>Image.open(path).convert("RGBA")\<close> yields for the file.
\<close>

datatype 'p node = Directory | Image_data "'p image" | Other_data

text \<open>
  The state the program works on: the image objects that exist (an image object is
  addressed by its index, a new one is appended), the file system (paths are compared as
  strings), and the records logged so far. What the program cannot see but depends on is
  the machine it runs on: \<open>memory s w h\<close> tells whether Pillow can allocate one more
  image of \<open>w\<close> by \<open>h\<close> pixels there (its own limit on the length of a line of
  pixels, and the memory that is free). It is asked where the program chooses the size
  of a new image, in \<open>Image.new\<close>; the images that \<open>polycut\<close> derives from an image
  it holds (the crop, the output of the size of the padded image) are taken to fit.
\<close>

record 'p world =
  memory :: "nat \<Rightarrow> nat \<Rightarrow> bool"
  images :: "'p image list"
  files :: "string \<rightharpoonup> 'p node"
  logged :: "(level \<times> 'p event) list"

definition logging_info :: "'p event \<Rightarrow> 'p world \<Rightarrow> 'p world" where
  "logging_info e s = s\<lparr>logged := logged s @ [(INFO, e)]\<rparr>"

definition logging_error :: "'p event \<Rightarrow> 'p world \<Rightarrow> 'p world" where
  "logging_error e s = s\<lparr>logged := logged s @ [(ERROR, e)]\<rparr>"

subsection \<open>The PIL operations the program calls\<close>

text \<open>
  \<open>Image.new(mode, size, color)\<close> raises ValueError when a dimension is negative,
  OverflowError when a dimension does not fit the C int that Pillow reads it into,
  MemoryError when the image cannot be allocated, and otherwise allocates an image filled
  with the color.
\<close>

definition Image_new :: "'p world \<Rightarrow> int \<times> int \<Rightarrow> 'p \<Rightarrow> py_error + ('p world \<times> nat)" where
  "Image_new s sz color =
     (if fst sz < 0 \<or> snd sz < 0 then Inl ValueError
      else if 2 ^ 31 \<le> fst sz \<or> 2 ^ 31 \<le> snd sz then Inl OverflowError
      else if \<not> memory s (nat (fst sz)) (nat (snd sz)) then Inl MemoryError
      else Inr (s\<lparr>images := images s @
                  [\<lparr>width = nat (fst sz), height = nat (snd sz),
                    rows = replicate (nat (snd sz)) (replicate (nat (fst sz)) color)\<rparr>]\<rparr>,
                length (images s)))"

text \<open>
  \<open>dst.paste(src, (x0, y0))\<close> overwrites, in place, the pixels of \<open>dst\<close> that the
  rectangle of \<open>src\<close> placed at \<open>(x0, y0)\<close> covers; the part of the rectangle that
  falls outside \<open>dst\<close> is clipped away. Pillow completes the box to
  \<open>(x0, y0, x0 + width, y0 + height)\<close> and reads the four coordinates into C ints:
  OverflowError when one of them does not fit.
\<close>

definition c_int :: "int \<Rightarrow> bool" where
  "c_int v \<longleftrightarrow> - (2 ^ 31) \<le> v \<and> v < 2 ^ 31"

definition paste_pixels :: "'p image \<Rightarrow> 'p image \<Rightarrow> int \<times> int \<Rightarrow> 'p image" where
  "paste_pixels dst src box =
     dst\<lparr>rows :=
       map (\<lambda>y. map (\<lambda>x.
              if fst box \<le> int x \<and> int x < fst box + int (width src) \<and>
                 snd box \<le> int y \<and> int y < snd box + int (height src)
              then getpixel src (nat (int x - fst box)) (nat (int y - snd box))
              else getpixel dst x y) [0..<width dst]) [0..<height dst]\<rparr>"

definition paste :: "'p world \<Rightarrow> nat \<Rightarrow> nat \<Rightarrow> int \<times> int \<Rightarrow> py_error + 'p world" where
  "paste s dst src box =
     (if c_int (fst box) \<and> c_int (snd box) \<and>
         c_int (fst box + int (width (images s ! src))) \<and>
         c_int (snd box + int (height (images s ! src)))
      then Inr (s\<lparr>images :=
                   (images s)[dst := paste_pixels (images s ! dst) (images s ! src) box]\<rparr>)
      else Inl OverflowError)"

section \<open>add_margin\<close>

definition add_margin ::
  "'p world \<Rightarrow> nat \<Rightarrow> int \<Rightarrow> int \<Rightarrow> int \<Rightarrow> int \<Rightarrow> 'p \<Rightarrow> py_error + ('p world \<times> nat)" where
  "add_margin s pil_img mtop mright mbottom mleft color =
     (let s1 = logging_info (Adding_margin mtop mright mbottom mleft color) s;
          wd = width (images s1 ! pil_img);
          ht = height (images s1 ! pil_img);
          new_width = int wd + mright + mleft;
          new_height = int ht + mtop + mbottom
      in case Image_new s1 (new_width, new_height) color of
           Inl e \<Rightarrow> Inl e
         | Inr (s2, result) \<Rightarrow>
             (case paste s2 result pil_img (mleft, mtop) of
                Inl e \<Rightarrow> Inl e
              | Inr s3 \<Rightarrow> Inr (s3, result)))"

text \<open>
  The image that \<open>add_margin\<close> returns, as a function of the input image
  (lemma \<open>add_margin_Inr\<close>).
\<close>

definition with_margin :: "'p image \<Rightarrow> int \<Rightarrow> int \<Rightarrow> int \<Rightarrow> int \<Rightarrow> 'p \<Rightarrow> 'p image" where
  "with_margin src mtop mright mbottom mleft color =
     paste_pixels
       \<lparr>width = nat (int (width src) + mright + mleft),
        height = nat (int (height src) + mtop + mbottom),
        rows = replicate (nat (int (height src) + mtop + mbottom))
                 (replicate (nat (int (width src) + mright + mleft)) color)\<rparr>
       src (mleft, mtop)"

section \<open>Python numbers\<close>

text \<open>
  A Python float is an IEEE 754 double. Its value is a rational number, and each
  arithmetic operation returns the exact result rounded to the nearest double, ties to
  the even significand (53 bits). \<open>binary64\<close> is that rounding on the normal range
  (overflow and subnormal numbers are not modelled: no value of the program comes near
  them). Python's \<open>round\<close> of a float to an integer rounds ties to the even integer.
\<close>

definition round_half_even :: "rat \<Rightarrow> int" where
  "round_half_even x =
     (let f = \<lfloor>x\<rfloor>; d = x - of_int f
      in if d < 1 / 2 then f else if 1 / 2 < d then f + 1 else if even f then f else f + 1)"

definition floor_log2 :: "rat \<Rightarrow> int" where
  "floor_log2 x =
     (let (a, b) = quotient_of x; e = bitlen a - bitlen b
      in if 2 powi e \<le> x then e else e - 1)"

definition binary64 :: "rat \<Rightarrow> rat" where
  "binary64 x =
     (if x = 0 then 0
      else let q = 2 powi (floor_log2 \<bar>x\<bar> - 52)
           in of_int (round_half_even (x / q)) * q)"

definition float_of_int :: "int \<Rightarrow> rat" where
  "float_of_int n = binary64 (of_int n)"

definition float_add :: "rat \<Rightarrow> rat \<Rightarrow> rat" where
  "float_add x y = binary64 (x + y)"

definition float_sub :: "rat \<Rightarrow> rat \<Rightarrow> rat" where
  "float_sub x y = binary64 (x - y)"

definition float_mul :: "rat \<Rightarrow> rat \<Rightarrow> rat" where
  "float_mul x y = binary64 (x * y)"

definition float_div :: "rat \<Rightarrow> rat \<Rightarrow> rat" where
  "float_div x y = binary64 (x / y)"

text \<open>\<open>a / b\<close> on two Python ints (the divisor is never zero in the program).\<close>

definition int_truediv :: "int \<Rightarrow> int \<Rightarrow> rat" where
  "int_truediv a b = binary64 (of_int a / of_int b)"

section \<open>RGBA images, files and paths\<close>

record rgba =
  red :: "8 word"
  green :: "8 word"
  blue :: "8 word"
  alpha :: "8 word"

text \<open>The color \<open>(255, 255, 255)\<close> in an RGBA image: PIL sets the alpha band to 255.\<close>

definition white :: rgba where
  "white = \<lparr>red = 255, green = 255, blue = 255, alpha = 255\<rparr>"

definition transparent_black :: rgba where
  "transparent_black = \<lparr>red = 0, green = 0, blue = 0, alpha = 0\<rparr>"

text \<open>
  \<open>im.crop(box)\<close> raises ValueError when the box is reversed, rounds each coordinate
  with \<open>round\<close> (in \<open>Image._crop\<close>: \<open>x0, y0, x1, y1 = map(int, map(round, box))\<close>),
  and returns a new image of the size of the rounded box; what the box covers outside the
  image is filled with zeros.
\<close>

definition crop_pixels :: "rgba image \<Rightarrow> int \<times> int \<times> int \<times> int \<Rightarrow> rgba image" where
  "crop_pixels src box =
     (case box of (x0, y0, x1, y1) \<Rightarrow>
        \<lparr>width = nat (x1 - x0), height = nat (y1 - y0),
         rows = map (\<lambda>y. map (\<lambda>x.
                  if 0 \<le> int x + x0 \<and> int x + x0 < int (width src) \<and>
                     0 \<le> int y + y0 \<and> int y + y0 < int (height src)
                  then getpixel src (nat (int x + x0)) (nat (int y + y0))
                  else transparent_black)
                [0..<nat (x1 - x0)]) [0..<nat (y1 - y0)]\<rparr>)"

definition crop ::
  "rgba world \<Rightarrow> nat \<Rightarrow> rat \<times> rat \<times> rat \<times> rat \<Rightarrow> py_error + (rgba world \<times> nat)" where
  "crop s im box =
     (case box of (b0, b1, b2, b3) \<Rightarrow>
        if b2 < b0 then Inl ValueError
        else if b3 < b1 then Inl ValueError
        else
          let x0 = round_half_even b0; y0 = round_half_even b1;
              x1 = round_half_even b2; y1 = round_half_even b3
          in Inr (s\<lparr>images := images s @ [crop_pixels (images s ! im) (x0, y0, x1, y1)]\<rparr>,
                  length (images s)))"

text \<open>\<open>posixpath.join\<close> of two components.\<close>

definition os_path_join :: "string \<Rightarrow> string \<Rightarrow> string" where
  "os_path_join a b =
     (if take 1 b = ''/'' then b
      else if a = [] \<or> last a = CHR ''/'' then a @ b
      else a @ ''/'' @ b)"

definition os_path_isfile :: "'p world \<Rightarrow> string \<Rightarrow> bool" where
  "os_path_isfile s p =
     (case files s p of
        None \<Rightarrow> False
      | Some Directory \<Rightarrow> False
      | Some (Image_data im) \<Rightarrow> True
      | Some Other_data \<Rightarrow> True)"

definition os_path_exists :: "'p world \<Rightarrow> string \<Rightarrow> bool" where
  "os_path_exists s p = (files s p \<noteq> None)"

text \<open>
  \<open>os.makedirs\<close> raises FileNotFoundError for the empty path. Only the directory itself
  is recorded, not the directories above it.
\<close>

definition os_makedirs :: "'p world \<Rightarrow> string \<Rightarrow> py_error + 'p world" where
  "os_makedirs s p =
     (if p = [] then Inl FileNotFoundError
      else Inr (s\<lparr>files := (files s)(p \<mapsto> Directory)\<rparr>))"

text \<open>
  \<open>Image.open(path).convert("RGBA")\<close> as one step: the image as opened is not referred
  to again.
\<close>

definition Image_open_convert :: "'p world \<Rightarrow> string \<Rightarrow> py_error + ('p world \<times> nat)" where
  "Image_open_convert s p =
     (case files s p of
        Some (Image_data im) \<Rightarrow> Inr (s\<lparr>images := images s @ [im]\<rparr>, length (images s))
      | _ \<Rightarrow> Inl UnidentifiedImageError)"

text \<open>
  \<open>im.save(path)\<close> as PNG, which stores an RGBA image without loss. The encoder
  refuses an image with no pixels (SystemError), and a directory cannot be written to.
\<close>

definition Image_save :: "'p world \<Rightarrow> nat \<Rightarrow> string \<Rightarrow> py_error + 'p world" where
  "Image_save s im p =
     (if width (images s ! im) = 0 \<or> height (images s ! im) = 0 then Inl SystemError
      else if files s p = Some Directory then Inl IsADirectoryError
      else Inr (s\<lparr>files := (files s)(p \<mapsto> Image_data (images s ! im))\<rparr>))"

section \<open>polycut\<close>

text \<open>
  Lines 63 to 65: the crop of an image that is wider than high. \<open>crop_box\<close> is the
  tuple passed to \<open>im.crop\<close>; \<open>min_x\<close> and \<open>min_x + height\<close> are floats.
\<close>

definition crop_box :: "nat \<Rightarrow> nat \<Rightarrow> rat \<times> rat \<times> rat \<times> rat" where
  "crop_box wd ht =
     (let min_x = int_truediv (int wd - int ht) 2
      in (min_x, 0, float_add min_x (float_of_int (int ht)), of_nat ht))"

definition square_crop :: "rgba world \<Rightarrow> nat \<Rightarrow> py_error + (rgba world \<times> nat)" where
  "square_crop s im =
     (let wd = width (images s ! im); ht = height (images s ! im)
      in if wd > ht then crop s im (crop_box wd ht) else Inr (s, im))"

text \<open>
  The image bound to \<open>im\<close> after line 65, as a function of the image loaded on
  line 59: what \<open>square_crop\<close> leaves in the heap (lemma \<open>square_crop_post_crop\<close>).
\<close>

definition post_crop :: "rgba image \<Rightarrow> rgba image" where
  "post_crop src =
     (if height src < width src then
        (case crop_box (width src) (height src) of
           (b0, b1, b2, b3) \<Rightarrow>
             crop_pixels src (round_half_even b0, round_half_even b1,
                              round_half_even b2, round_half_even b3))
      else src)"

text \<open>
  Line 70. The hexagon's geometry is computed in doubles with \<open>sqrt\<close>, \<open>cos\<close> and
  \<open>sin\<close>; these values only position the polygon, and they are taken as the real
  numbers the doubles approximate.
\<close>

definition geometry_factor :: "nat \<Rightarrow> nat \<Rightarrow> real" where
  "geometry_factor wd ht = (if wd > ht then 1 / sqrt 3 else 1 / 2)"

text \<open>Lines 72 to 74, in double arithmetic.\<close>

definition padding_factor :: "nat \<Rightarrow> int" where
  "padding_factor wd =
     (let req_width = 17; page_width = 20
      in \<lfloor>float_div (float_mul (float_of_int (int wd))
                      (float_sub (float_div page_width req_width) 1)) 2\<rfloor>)"

text \<open>Lines 79 to 84.\<close>

definition hexagon :: "real \<Rightarrow> nat \<Rightarrow> nat \<Rightarrow> (real \<times> real) list" where
  "hexagon r padded_width padded_height =
     fold (\<lambda>i polygon.
             let theta = real i * 2 * pi / 6;
                 x = r * cos theta;
                 y = r * sin theta
             in polygon @ [(x + real padded_width / 2, y + real padded_height * 0.89 / 2)])
          [0..<6] []"

text \<open>
  Lines 86 to 88. \<open>ImageDraw.polygon\<close> is PIL's rasteriser: \<open>draw_polygon polygon x y\<close>
  tells whether it sets the pixel \<open>(x, y)\<close>, to the value 1 on a mask of zeros. The mask
  has one byte per pixel; it is kept as a grid of its own, outside the heap of RGBA images.
\<close>

definition polygon_mask ::
  "((real \<times> real) list \<Rightarrow> nat \<Rightarrow> nat \<Rightarrow> bool) \<Rightarrow> (real \<times> real) list \<Rightarrow> nat \<Rightarrow> nat \<Rightarrow> 8 word list list" where
  "polygon_mask draw_polygon polygon wd ht =
     map (\<lambda>y. map (\<lambda>x. if draw_polygon polygon x y then 1 else 0) [0..<wd]) [0..<ht]"

text \<open>Lines 90 to 94: the product \<open>mask * 255\<close> is one of unsigned bytes.\<close>

definition apply_alpha :: "rgba image \<Rightarrow> 8 word list list \<Rightarrow> rgba image" where
  "apply_alpha im_padded mask_array =
     \<lparr>width = width im_padded, height = height im_padded,
      rows = map (\<lambda>y. map (\<lambda>x.
               \<lparr>red = red (getpixel im_padded x y),
                green = green (getpixel im_padded x y),
                blue = blue (getpixel im_padded x y),
                alpha = mask_array ! y ! x * 255\<rparr>)
             [0..<width im_padded]) [0..<height im_padded]\<rparr>"

definition polycut ::
  "((real \<times> real) list \<Rightarrow> nat \<Rightarrow> nat \<Rightarrow> bool) \<Rightarrow> rgba world \<Rightarrow> string \<Rightarrow> string
     \<Rightarrow> py_error + rgba world" where
  "polycut draw_polygon s0 name directory =
     (let s1 = logging_info (Processing_image name directory) s0;
          file_path = os_path_join directory name;
          extensions = [''.png'', ''.jpeg'', ''.jpg''];
          file_name = find (os_path_isfile s1) (map (\<lambda>ext. file_path @ ext) extensions)
      in if file_name = None \<or> file_name = Some [] then
           Inr (logging_error (Image_file_not_found name directory) s1)
         else
          (case Image_open_convert s1 (the file_name) of
             Inl e \<Rightarrow> Inl e
           | Inr (s2, im) \<Rightarrow>
              (let dim = min (width (images s2 ! im)) (height (images s2 ! im))
               in (case square_crop s2 im of
                     Inl e \<Rightarrow> Inl e
                   | Inr (s3, im') \<Rightarrow>
                      (let wd = width (images s3 ! im');
                           ht = height (images s3 ! im');
                           factor = geometry_factor wd ht;
                           r = real dim * factor;
                           pf = padding_factor wd
                       in (case add_margin s3 im' pf pf pf pf white of
                             Inl e \<Rightarrow> Inl e
                           | Inr (s4, im_padded) \<Rightarrow>
                              (let padded = images s4 ! im_padded;
                                   polygon = hexagon r (width padded) (height padded);
                                   mask_array = polygon_mask draw_polygon polygon
                                                  (width padded) (height padded);
                                   new_im = length (images s4);
                                   s5 = s4\<lparr>images :=
                                           images s4 @ [apply_alpha padded mask_array]\<rparr>;
                                   output_dir = directory;
                                   out_path = os_path_join output_dir (name @ ''_hex.png'')
                               in (case (if \<not> os_path_exists s5 output_dir
                                         then (case os_makedirs s5 output_dir of
                                                 Inl e \<Rightarrow> Inl e
                                               | Inr s5' \<Rightarrow>
                                                   Inr (logging_info
                                                          (Created_directory output_dir) s5'))
                                         else Inr s5) of
                                     Inl e \<Rightarrow> Inl e
                                   | Inr s6 \<Rightarrow>
                                      (case Image_save s6 new_im out_path of
                                         Inl e \<Rightarrow> Inl e
                                       | Inr s7 \<Rightarrow>
                                           Inr (logging_info
                                                  (Saved_hexagonal_image out_path) s7))))))))))"

section \<open>Example inputs\<close>

text \<open>A machine with the memory for an image of up to \<open>2 ^ 24\<close> pixels.\<close>

definition test_memory :: "nat \<Rightarrow> nat \<Rightarrow> bool" where
  "test_memory w h \<longleftrightarrow> w * h \<le> 2 ^ 24"

text \<open>
  The input of \<open>test_polycut\<close>: a 100 by 100 image of the color \<open>(255, 0, 0, 0)\<close>
  saved as \<open>output/test.png\<close> in an existing directory \<open>output\<close>.
\<close>

definition test_image :: "rgba image" where
  "test_image =
     \<lparr>width = 100, height = 100,
      rows = replicate 100 (replicate 100 \<lparr>red = 255, green = 0, blue = 0, alpha = 0\<rparr>)\<rparr>"

definition test_world :: "rgba world" where
  "test_world =
     \<lparr>memory = test_memory, images = [],
      files = [''output'' \<mapsto> Directory, ''output/test.png'' \<mapsto> Image_data test_image],
      logged = []\<rparr>"

text \<open>A stand-in for the rasteriser: it sets the pixels of the upper left triangle.\<close>

definition draw_triangle :: "(real \<times> real) list \<Rightarrow> nat \<Rightarrow> nat \<Rightarrow> bool" where
  "draw_triangle polygon x y \<longleftrightarrow> x + y < 100"

text \<open>The image that \<open>polycut\<close> writes for \<open>test_world\<close>.\<close>

definition test_hex_image :: "rgba image" where
  "test_hex_image =
     apply_alpha (with_margin test_image 8 8 8 8 white)
       (polygon_mask draw_triangle (hexagon 50 116 116) 116 116)"

text \<open>The same directory with a second candidate, \<open>output/test.jpg\<close>.\<close>

definition two_candidates_world :: "rgba world" where
  "two_candidates_world =
     test_world\<lparr>files := (files test_world)(''output/test.jpg'' \<mapsto> Image_data test_image)\<rparr>"

text \<open>An image of 4 by 3 pixels, saved as \<open>output/wide.png\<close>.\<close>

definition wide_image :: "rgba image" where
  "wide_image =
     \<lparr>width = 4, height = 3,
      rows = replicate 3 (replicate 4 \<lparr>red = 255, green = 0, blue = 0, alpha = 0\<rparr>)\<rparr>"

definition wide_world :: "rgba world" where
  "wide_world =
     \<lparr>memory = test_memory, images = [],
      files = [''output'' \<mapsto> Directory, ''output/wide.png'' \<mapsto> Image_data wide_image],
      logged = []\<rparr>"

text \<open>An image of two pixels in one row, alone in the heap.\<close>

definition two_pixel_world :: "nat world" where
  "two_pixel_world =
     \<lparr>memory = test_memory, images = [\<lparr>width = 2, height = 1, rows = [[5, 7]]\<rparr>], files = Map.empty, logged = []\<rparr>"



section \<open>Properties of add_margin\<close>

lemma add_margin_Inr:
  assumes "0 \<le> int (width (images s ! pil_img)) + mright + mleft"
    and "0 \<le> int (height (images s ! pil_img)) + mtop + mbottom"
    and "int (width (images s ! pil_img)) + mright + mleft < 2 ^ 31"
    and "int (height (images s ! pil_img)) + mtop + mbottom < 2 ^ 31"
    and "memory s (nat (int (width (images s ! pil_img)) + mright + mleft))
                  (nat (int (height (images s ! pil_img)) + mtop + mbottom))"
    and "c_int mleft" and "c_int mtop"
    and "c_int (mleft + int (width (images s ! pil_img)))"
    and "c_int (mtop + int (height (images s ! pil_img)))"
    and "pil_img < length (images s)"
  shows "add_margin s pil_img mtop mright mbottom mleft color =
     Inr (\<lparr>memory = memory s, images = images s @
             [paste_pixels
                \<lparr>width = nat (int (width (images s ! pil_img)) + mright + mleft),
                 height = nat (int (height (images s ! pil_img)) + mtop + mbottom),
                 rows = replicate (nat (int (height (images s ! pil_img)) + mtop + mbottom))
                         (replicate (nat (int (width (images s ! pil_img)) + mright + mleft)) color)\<rparr>
                (images s ! pil_img) (mleft, mtop)],
           files = files s,
           logged = logged s @ [(INFO, Adding_margin mtop mright mbottom mleft color)]\<rparr>,
          length (images s))"
  using assms
  by (simp add: add_margin_def Image_new_def paste_def logging_info_def Let_def nth_append)

lemma add_margin_Inl:
  assumes "int (width (images s ! pil_img)) + mright + mleft < 0
         \<or> int (height (images s ! pil_img)) + mtop + mbottom < 0"
  shows "add_margin s pil_img mtop mright mbottom mleft color = Inl ValueError"
  using assms
  by (auto simp add: add_margin_def Image_new_def logging_info_def Let_def)

lemma add_margin_OverflowError:
  assumes "0 \<le> int (width (images s ! pil_img)) + mright + mleft"
    and "0 \<le> int (height (images s ! pil_img)) + mtop + mbottom"
    and "2 ^ 31 \<le> int (width (images s ! pil_img)) + mright + mleft
       \<or> 2 ^ 31 \<le> int (height (images s ! pil_img)) + mtop + mbottom"
  shows "add_margin s pil_img mtop mright mbottom mleft color = Inl OverflowError"
  using assms
  by (auto simp add: add_margin_def Image_new_def logging_info_def Let_def)

lemma add_margin_MemoryError:
  assumes "0 \<le> int (width (images s ! pil_img)) + mright + mleft"
    and "0 \<le> int (height (images s ! pil_img)) + mtop + mbottom"
    and "int (width (images s ! pil_img)) + mright + mleft < 2 ^ 31"
    and "int (height (images s ! pil_img)) + mtop + mbottom < 2 ^ 31"
    and "\<not> memory s (nat (int (width (images s ! pil_img)) + mright + mleft))
                    (nat (int (height (images s ! pil_img)) + mtop + mbottom))"
  shows "add_margin s pil_img mtop mright mbottom mleft color = Inl MemoryError"
  using assms
  by (simp add: add_margin_def Image_new_def logging_info_def Let_def)

lemma add_margin_paste_OverflowError:
  assumes "0 \<le> int (width (images s ! pil_img)) + mright + mleft"
    and "0 \<le> int (height (images s ! pil_img)) + mtop + mbottom"
    and "int (width (images s ! pil_img)) + mright + mleft < 2 ^ 31"
    and "int (height (images s ! pil_img)) + mtop + mbottom < 2 ^ 31"
    and "memory s (nat (int (width (images s ! pil_img)) + mright + mleft))
                  (nat (int (height (images s ! pil_img)) + mtop + mbottom))"
    and "\<not> (c_int mleft \<and> c_int mtop \<and> c_int (mleft + int (width (images s ! pil_img))) \<and>
            c_int (mtop + int (height (images s ! pil_img))))"
    and "pil_img < length (images s)"
  shows "add_margin s pil_img mtop mright mbottom mleft color = Inl OverflowError"
  using assms
  by (auto simp add: add_margin_def Image_new_def paste_def logging_info_def Let_def nth_append)

lemma c_int_margin:
  assumes "0 \<le> m" and "0 \<le> m'" and "int n + m' + m < 2 ^ 31"
  shows "c_int m" and "c_int (m + int n)"
  using assms by (simp_all add: c_int_def)

lemma getpixel_paste_new:
  assumes "x < w" and "y < h"
  shows "getpixel (paste_pixels \<lparr>width = w, height = h, rows = replicate h (replicate w c)\<rparr>
                     src (x0, y0)) x y =
         (if x0 \<le> int x \<and> int x < x0 + int (width src) \<and>
             y0 \<le> int y \<and> int y < y0 + int (height src)
          then getpixel src (nat (int x - x0)) (nat (int y - y0)) else c)"
  using assms by (simp add: getpixel_def paste_pixels_def)

lemma wf_paste_pixels: "wf_image (paste_pixels dst src box)"
  by (simp add: wf_image_def paste_pixels_def list_all_iff)

lemma size_paste_pixels:
  "width (paste_pixels dst src box) = width dst"
  "height (paste_pixels dst src box) = height dst"
  by (simp_all add: paste_pixels_def)


section \<open>Properties of the float operations\<close>

lemma round_half_even_of_int: "round_half_even (of_int n) = n"
  by (simp add: round_half_even_def)

lemma round_half_even_nonneg: "0 \<le> x \<Longrightarrow> 0 \<le> round_half_even x"
  by (simp add: round_half_even_def Let_def)

lemma round_half_even_half:
  "round_half_even (of_int k / 2) =
     (if even k then k div 2 else if even (k div 2) then k div 2 else k div 2 + 1)"
proof (cases "even k")
  case True
  then obtain j where "k = 2 * j" by (auto elim: evenE)
  then show ?thesis by (simp add: round_half_even_of_int)
next
  case False
  then obtain j where k: "k = 2 * j + 1" by (auto elim: oddE)
  have x: "(of_int k / 2 :: rat) = of_int j + 1 / 2" by (simp add: k field_simps)
  have fl: "\<lfloor>of_int j + 1 / 2 :: rat\<rfloor> = j" by (simp add: floor_unique)
  have kd: "k div 2 = j" by (simp add: k)
  show ?thesis using False
    by (simp add: round_half_even_def x fl kd Let_def)
qed

lemma floor_log2_bounds:
  assumes "0 < x"
  shows "2 powi (floor_log2 x) \<le> x" and "x < 2 powi (floor_log2 x + 1)"
proof -
  obtain a b where q: "quotient_of x = (a, b)" by (cases "quotient_of x")
  have b: "0 < b" using q quotient_of_denom_pos by blast
  have x: "x = of_int a / of_int b" using q by (rule quotient_of_div)
  have a: "0 < a" using assms b by (simp add: x zero_less_divide_iff)
  let ?la = "bitlen a" and ?lb = "bitlen b"
  from bitlen_bounds [OF a] have a1: "2 ^ nat (?la - 1) \<le> a" and a2: "a < 2 ^ nat ?la" by auto
  from bitlen_bounds [OF b] have b1: "2 ^ nat (?lb - 1) \<le> b" and b2: "b < 2 ^ nat ?lb" by auto
  have la: "1 \<le> ?la" using a by (simp add: bitlen_alt_def)
  have lb: "1 \<le> ?lb" using b by (simp add: bitlen_alt_def)
  have ra1: "(2::rat) powi (?la - 1) \<le> of_int a"
  proof -
    have "(of_int (2 ^ nat (?la - 1)) :: rat) \<le> of_int a" using a1 by (simp only: of_int_le_iff)
    then show ?thesis using la by (simp add: power_int_def)
  qed
  have ra2: "of_int a < (2::rat) powi ?la"
  proof -
    have "(of_int a :: rat) < of_int (2 ^ nat ?la)" using a2 by (simp only: of_int_less_iff)
    then show ?thesis using la by (simp add: power_int_def)
  qed
  have rb1: "(2::rat) powi (?lb - 1) \<le> of_int b"
  proof -
    have "(of_int (2 ^ nat (?lb - 1)) :: rat) \<le> of_int b" using b1 by (simp only: of_int_le_iff)
    then show ?thesis using lb by (simp add: power_int_def)
  qed
  have rb2: "of_int b < (2::rat) powi ?lb"
  proof -
    have "(of_int b :: rat) < of_int (2 ^ nat ?lb)" using b2 by (simp only: of_int_less_iff)
    then show ?thesis using lb by (simp add: power_int_def)
  qed
  have rb: "(0::rat) < of_int b" using b by simp
  have lower: "(2::rat) powi (?la - ?lb - 1) \<le> x"
  proof -
    have "(2::rat) powi (?la - ?lb - 1) * of_int b \<le> 2 powi (?la - ?lb - 1) * 2 powi ?lb"
      using rb2 by (intro mult_left_mono) simp_all
    also have "\<dots> = 2 powi (?la - 1)" by (simp add: power_int_add [symmetric])
    also have "\<dots> \<le> of_int a" by (rule ra1)
    finally show ?thesis using rb by (simp add: x pos_le_divide_eq)
  qed
  have upper: "x < (2::rat) powi (?la - ?lb + 1)"
  proof -
    have "of_int a < (2::rat) powi ?la" by (rule ra2)
    also have "\<dots> = 2 powi (?la - ?lb + 1) * 2 powi (?lb - 1)"
      by (simp add: power_int_add [symmetric])
    also have "\<dots> \<le> 2 powi (?la - ?lb + 1) * of_int b"
      using rb1 by (intro mult_left_mono) simp_all
    finally show ?thesis using rb by (simp add: x pos_divide_less_eq)
  qed
  show "2 powi (floor_log2 x) \<le> x"
    using lower by (simp add: floor_log2_def q Let_def)
  show "x < 2 powi (floor_log2 x + 1)"
    using upper by (auto simp add: floor_log2_def q Let_def not_le)
qed

lemma binary64_nonneg: "0 \<le> x \<Longrightarrow> 0 \<le> binary64 x"
  by (simp add: binary64_def Let_def round_half_even_nonneg)

lemma binary64_exact:
  assumes "x / 2 powi (floor_log2 \<bar>x\<bar> - 52) = of_int m"
  shows "binary64 x = x"
proof (cases "x = 0")
  case True
  then show ?thesis by (simp add: binary64_def)
next
  case False
  define q :: rat where "q = 2 powi (floor_log2 \<bar>x\<bar> - 52)"
  have q: "q \<noteq> 0" by (simp add: q_def)
  have m: "x / q = of_int m" using assms by (simp only: q_def)
  have "binary64 x = of_int (round_half_even (x / q)) * q"
    using False by (simp add: binary64_def Let_def q_def)
  also have "\<dots> = of_int m * q" by (simp only: m round_half_even_of_int)
  also have "\<dots> = x" using q m by (simp add: field_simps)
  finally show ?thesis .
qed

lemma binary64_half_int:
  assumes "\<bar>of_int k / 2 :: rat\<bar> < 2 ^ 52"
  shows "binary64 (of_int k / 2) = of_int k / 2"
proof (cases "k = 0")
  case True
  then show ?thesis by (simp add: binary64_def)
next
  case False
  define x :: rat where "x = of_int k / 2"
  define e where "e = floor_log2 \<bar>x\<bar>"
  have small: "\<bar>x\<bar> < 2 ^ 52" using assms by (simp only: x_def)
  have pos: "0 < \<bar>x\<bar>" using False by (simp add: x_def)
  have half: "1 / 2 \<le> \<bar>x\<bar>"
  proof -
    have "1 \<le> \<bar>k\<bar>" using False by simp
    then have "(1::rat) \<le> \<bar>of_int k\<bar>" by (metis of_int_1 of_int_abs of_int_le_iff)
    then show ?thesis by (simp add: x_def)
  qed
  have e_hi: "e \<le> 51"
  proof (rule ccontr)
    assume "\<not> e \<le> 51"
    then have "52 \<le> e" by simp
    then have "(2::rat) powi 52 \<le> 2 powi e" by (intro power_int_increasing) simp_all
    also have "\<dots> \<le> \<bar>x\<bar>" unfolding e_def by (rule floor_log2_bounds (1) [OF pos])
    finally show False using small by simp
  qed
  define n where "n = nat (51 - e)"
  have e: "e - 52 = - int (Suc n)" using e_hi by (simp add: n_def)
  have q: "(2::rat) powi (e - 52) = 1 / (2 * 2 ^ n)"
    unfolding e by (simp add: power_int_minus field_simps del: of_nat_Suc)
  have "x / 2 powi (e - 52) = of_int (k * 2 ^ n)"
    unfolding q by (simp add: x_def)
  then have "binary64 x = x" unfolding e_def by (rule binary64_exact)
  then show ?thesis by (simp only: x_def)
qed

lemma binary64_of_int:
  assumes "\<bar>n\<bar> < 2 ^ 52"
  shows "binary64 (of_int n) = of_int n"
proof -
  have "\<bar>of_int (2 * n) / 2 :: rat\<bar> < 2 ^ 52"
  proof -
    have "(of_int \<bar>n\<bar> :: rat) < of_int (2 ^ 52)" using assms by (simp only: of_int_less_iff)
    then show ?thesis by simp
  qed
  then have "binary64 (of_int (2 * n) / 2) = of_int (2 * n) / 2" by (rule binary64_half_int)
  then show ?thesis by simp
qed

lemma padding_factor_nonneg: "0 \<le> padding_factor wd"
proof -
  have "0 \<le> binary64 (20 / 17) - 1" by code_simp
  then have c: "0 \<le> float_sub (float_div 20 17) 1"
    unfolding float_sub_def float_div_def by (rule binary64_nonneg)
  have "0 \<le> float_div (float_mul (float_of_int (int wd)) (float_sub (float_div 20 17) 1)) 2"
    unfolding float_div_def [of _ 2] float_mul_def float_of_int_def
    by (intro binary64_nonneg divide_nonneg_nonneg mult_nonneg_nonneg c) simp_all
  then show ?thesis
    unfolding padding_factor_def Let_def by (simp only: zero_le_floor)
qed

lemma crop_box_exact:
  assumes "ht < wd" and "wd < 2 ^ 52"
  shows "crop_box wd ht =
     (of_int (int wd - int ht) / 2, 0, of_int (int wd - int ht) / 2 + of_nat ht, of_nat ht)"
proof -
  have wd: "int wd < 2 ^ 52" using assms(2) by (metis of_nat_less_numeral_power_cancel_iff)
  have a: "\<bar>rat_of_int (int wd - int ht) / 2\<bar> < 2 ^ 52"
  proof -
    have "int wd - int ht < 2 ^ 52" using wd by simp
    then have "rat_of_int (int wd - int ht) < of_int (2 ^ 52)"
      by (simp only: of_int_less_iff)
    then show ?thesis using assms(1) by (simp add: abs_if)
  qed
  have b: "\<bar>int ht\<bar> < 2 ^ 52" using wd assms(1) by simp
  have c: "\<bar>rat_of_int (int wd + int ht) / 2\<bar> < 2 ^ 52"
  proof -
    have "int wd + int ht < 2 * 2 ^ 52" using wd assms(1) by simp
    then have "rat_of_int (int wd + int ht) < of_int (2 * 2 ^ 52)"
      by (simp only: of_int_less_iff)
    then show ?thesis by (simp add: abs_if)
  qed
  have 1: "int_truediv (int wd - int ht) 2 = of_int (int wd - int ht) / 2"
    unfolding int_truediv_def using binary64_half_int [OF a] by simp
  have 2: "float_of_int (int ht) = of_nat ht"
    unfolding float_of_int_def using binary64_of_int [OF b] by simp
  have s: "rat_of_int (int wd - int ht) / 2 + rat_of_nat ht = rat_of_int (int wd + int ht) / 2"
    by (simp add: field_simps)
  have 3: "float_add (of_int (int wd - int ht) / 2) (of_nat ht) =
             of_int (int wd - int ht) / 2 + of_nat ht"
    unfolding float_add_def s by (rule binary64_half_int [OF c])
  show ?thesis
    unfolding crop_box_def Let_def 1 2 3 ..
qed

lemma round_half_even_ge: "of_int k \<le> x \<Longrightarrow> k \<le> round_half_even x"
proof -
  assume "of_int k \<le> x"
  then have "k \<le> \<lfloor>x\<rfloor>" by (simp add: le_floor_iff)
  then show ?thesis by (simp add: round_half_even_def Let_def)
qed

lemma round_half_even_le: "x \<le> of_int k \<Longrightarrow> round_half_even x \<le> k"
proof -
  assume a: "x \<le> of_int k"
  show ?thesis
  proof (cases "x = of_int k")
    case True
    then show ?thesis by (simp add: round_half_even_of_int)
  next
    case False
    with a have "x < of_int k" by simp
    then have "\<lfloor>x\<rfloor> < k" by (simp add: floor_less_iff)
    then show ?thesis by (simp add: round_half_even_def Let_def)
  qed
qed

lemma round_half_even_less:
  assumes "x < of_int k - 1 / 2"
  shows "round_half_even x < k"
proof -
  define f where "f = \<lfloor>x\<rfloor>"
  have f: "of_int f \<le> x" "x < of_int f + 1" unfolding f_def by linarith+
  show ?thesis
  proof (cases "x - of_int f < 1 / 2")
    case True
    have "of_int f < (of_int k :: rat)" using f(1) assms by linarith
    then have "f < k" by simp
    then show ?thesis using True by (simp add: round_half_even_def Let_def f_def)
  next
    case False
    then have "of_int f + 1 < (of_int k :: rat)" using assms by linarith
    then have "(of_int (f + 1) :: rat) < of_int k" by simp
    then have "f + 1 < k" by (simp only: of_int_less_iff)
    then show ?thesis by (simp add: round_half_even_def Let_def f_def)
  qed
qed

lemma floor_log2_le:
  assumes "0 < x" and "x < 2 powi n"
  shows "floor_log2 x < n"
proof (rule ccontr)
  assume "\<not> floor_log2 x < n"
  then have "n \<le> floor_log2 x" by simp
  then have "(2::rat) powi n \<le> 2 powi floor_log2 x" by (intro power_int_increasing) simp_all
  also have "\<dots> \<le> x" by (rule floor_log2_bounds(1) [OF assms(1)])
  finally show False using assms(2) by simp
qed

lemma powi_neg_nat: "(2::rat) powi (- int n) = 1 / 2 ^ n"
  by (simp add: power_int_minus field_simps)

lemma binary64_ge_int:
  assumes "0 < y" and "y < 2 ^ 53" and "of_int m \<le> y"
  shows "of_int m \<le> binary64 y"
proof -
  define e where "e = floor_log2 y"
  have "y < 2 powi 53" using assms(2) by simp
  then have e: "e < 53" unfolding e_def using assms(1) by (intro floor_log2_le)
  define n where "n = nat (52 - e)"
  have en: "e - 52 = - int n" using e by (simp add: n_def)
  have q: "(2::rat) powi (e - 52) = 1 / 2 ^ n" unfolding en by (rule powi_neg_nat)
  have "rat_of_int (m * 2 ^ n) \<le> y * 2 ^ n" using assms(3) by simp
  then have "m * 2 ^ n \<le> round_half_even (y * 2 ^ n)" by (rule round_half_even_ge)
  then have "rat_of_int (m * 2 ^ n) \<le> of_int (round_half_even (y * 2 ^ n))"
    by (simp only: of_int_le_iff)
  then have "rat_of_int m \<le> of_int (round_half_even (y * 2 ^ n)) / 2 ^ n"
    by (simp add: field_simps)
  moreover have "binary64 y = of_int (round_half_even (y * 2 ^ n)) / 2 ^ n"
  proof -
    have "binary64 y = of_int (round_half_even (y / 2 powi (e - 52))) * 2 powi (e - 52)"
      using assms(1) by (simp add: binary64_def Let_def e_def)
    then show ?thesis unfolding q by simp
  qed
  ultimately show ?thesis by simp
qed

lemma binary64_less_int:
  assumes "0 < y" and "y < 2 ^ 53" and "y * (1 + 1 / 2 ^ 53) < of_int m"
  shows "binary64 y < of_int m"
proof -
  define e where "e = floor_log2 y"
  have "y < 2 powi 53" using assms(2) by simp
  then have e: "e < 53" unfolding e_def using assms(1) by (intro floor_log2_le)
  define n where "n = nat (52 - e)"
  have en: "e - 52 = - int n" using e by (simp add: n_def)
  have q: "(2::rat) powi (e - 52) = 1 / 2 ^ n" unfolding en by (rule powi_neg_nat)
  have lo: "(2::rat) powi e \<le> y"
    unfolding e_def by (rule floor_log2_bounds(1) [OF assms(1)])
  have pe: "(2::rat) powi e = 2 ^ 52 / 2 ^ n"
    using power_int_add [of "2::rat" "e - 52" 52] unfolding q by simp
  define u where "u = y * 2 ^ n"
  define M where "M = rat_of_int m * 2 ^ n"
  have lo': "(2::rat) ^ 52 \<le> u"
    using lo unfolding pe u_def by (simp add: field_simps)
  have up: "u * (1 + 1 / 2 ^ 53) < M"
  proof -
    have "y * (1 + 1 / 2 ^ 53) * 2 ^ n < of_int m * 2 ^ n"
      using assms(3) by (intro mult_strict_right_mono) simp_all
    then show ?thesis unfolding u_def M_def by (simp only: mult.commute mult.left_commute)
  qed
  have "u < M - 1 / 2" using lo' up by simp
  then have "y * 2 ^ n < rat_of_int (m * 2 ^ n) - 1 / 2"
    unfolding u_def M_def by simp
  then have "round_half_even (y * 2 ^ n) < m * 2 ^ n" by (rule round_half_even_less)
  then have "rat_of_int (round_half_even (y * 2 ^ n)) < of_int (m * 2 ^ n)"
    by (simp only: of_int_less_iff)
  then have "of_int (round_half_even (y * 2 ^ n)) / 2 ^ n < rat_of_int m"
    by (simp add: field_simps)
  moreover have "binary64 y = of_int (round_half_even (y * 2 ^ n)) / 2 ^ n"
  proof -
    have "binary64 y = of_int (round_half_even (y / 2 powi (e - 52))) * 2 powi (e - 52)"
      using assms(1) by (simp add: binary64_def Let_def e_def)
    then show ?thesis unfolding q by simp
  qed
  ultimately show ?thesis by simp
qed

lemma binary64_dyadic:
  assumes "\<bar>k\<bar> \<le> 2 ^ 53"
  shows "binary64 (of_int k * 2 powi j) = of_int k * 2 powi j"
proof (cases "k = 0")
  case True
  then show ?thesis by (simp add: binary64_def)
next
  case False
  define x :: rat where "x = of_int k * 2 powi j"
  define e where "e = floor_log2 \<bar>x\<bar>"
  have ax: "\<bar>x\<bar> = of_int \<bar>k\<bar> * 2 powi j" by (simp add: x_def abs_mult)
  have pos: "0 < \<bar>x\<bar>" using False by (simp add: x_def)
  have kle: "rat_of_int \<bar>k\<bar> \<le> 2 ^ 53"
  proof -
    have "rat_of_int \<bar>k\<bar> \<le> of_int (2 ^ 53)" using assms by (simp only: of_int_le_iff)
    then show ?thesis by simp
  qed
  have "\<bar>x\<bar> \<le> 2 ^ 53 * 2 powi j"
    unfolding ax using kle by (intro mult_right_mono) simp_all
  also have "\<dots> = 2 powi (53 + j)" using power_int_add [of "2::rat" 53 j] by simp
  also have "\<dots> < 2 powi (54 + j)" by (intro power_int_strict_increasing) simp_all
  finally have "e < 54 + j" unfolding e_def using pos by (intro floor_log2_le)
  then consider "e \<le> 52 + j" | "e = 53 + j" by linarith
  then have "\<exists>m. x / 2 powi (e - 52) = of_int m"
  proof cases
    case 1
    define n where "n = nat (52 + j - e)"
    have "j - (e - 52) = int n" using 1 by (simp add: n_def)
    then have "(2::rat) powi j / 2 powi (e - 52) = 2 ^ n"
      using power_int_diff [of "2::rat" j "e - 52"] by simp
    then have "of_int k * ((2::rat) powi j / 2 powi (e - 52)) = of_int (k * 2 ^ n)"
      by simp
    then have "x / 2 powi (e - 52) = of_int (k * 2 ^ n)"
      unfolding x_def by (simp only: times_divide_eq_right)
    then show ?thesis ..
  next
    case 2
    have "(2::rat) powi (53 + j) \<le> \<bar>x\<bar>"
      using floor_log2_bounds(1) [OF pos] unfolding e_def [symmetric] 2 .
    then have "2 ^ 53 * (2::rat) powi j \<le> of_int \<bar>k\<bar> * 2 powi j"
      unfolding ax using power_int_add [of "2::rat" 53 j] by simp
    then have "(2::rat) ^ 53 \<le> of_int \<bar>k\<bar>" by simp
    then have "rat_of_int (2 ^ 53) \<le> of_int \<bar>k\<bar>" by simp
    then have "2 ^ 53 \<le> \<bar>k\<bar>" by (simp only: of_int_le_iff)
    with assms have "\<bar>k\<bar> = 2 ^ 53" by simp
    then have "even \<bar>k\<bar>" by simp
    then have "even k" by simp
    then obtain k2 where k2: "k = 2 * k2" by (auto elim: evenE)
    have "e - 52 = j + 1" using 2 by simp
    then have "(2::rat) powi (e - 52) = 2 powi (j + 1)" by (rule arg_cong)
    also have "\<dots> = 2 powi j * 2 powi 1" by (rule power_int_add) simp
    finally have "(2::rat) powi j / 2 powi (e - 52) = 1 / 2" by simp
    then have "of_int k * ((2::rat) powi j / 2 powi (e - 52)) = of_int k2"
      unfolding k2 by simp
    then have "x / 2 powi (e - 52) = of_int k2"
      unfolding x_def by (simp only: times_divide_eq_right)
    then show ?thesis ..
  qed
  then obtain m where "x / 2 powi (floor_log2 \<bar>x\<bar> - 52) = of_int m"
    unfolding e_def by blast
  then have "binary64 x = x" by (rule binary64_exact)
  then show ?thesis unfolding x_def .
qed

lemma binary64_form:
  assumes "0 < y"
  shows "\<exists>k j. \<bar>k\<bar> \<le> 2 ^ 53 \<and> binary64 y = of_int k * 2 powi j"
proof -
  define e where "e = floor_log2 y"
  define q :: rat where "q = 2 powi (e - 52)"
  have q: "0 < q" by (simp add: q_def)
  have "y < 2 powi (e + 1)" unfolding e_def by (rule floor_log2_bounds(2) [OF assms])
  also have "(2::rat) powi (e + 1) = q * 2 ^ 53"
  proof -
    have eq: "e + 1 = (e - 52) + 53" by simp
    have "(2::rat) powi (e + 1) = 2 powi ((e - 52) + 53)" by (subst eq) (rule refl)
    also have "\<dots> = 2 powi (e - 52) * 2 powi 53" by (rule power_int_add) simp
    finally show ?thesis by (simp add: q_def)
  qed
  finally have "y / q < 2 ^ 53" using q by (simp add: field_simps)
  then have "y / q \<le> of_int (2 ^ 53)" by simp
  then have hi: "round_half_even (y / q) \<le> 2 ^ 53" by (rule round_half_even_le)
  have "0 \<le> y / q" using assms q by simp
  then have lo: "0 \<le> round_half_even (y / q)" by (rule round_half_even_nonneg)
  have "binary64 y = of_int (round_half_even (y / q)) * 2 powi (e - 52)"
    using assms by (simp add: binary64_def Let_def e_def q_def)
  moreover have "\<bar>round_half_even (y / q)\<bar> \<le> 2 ^ 53" using hi lo by simp
  ultimately show ?thesis by blast
qed

lemma binary64_half_exact:
  assumes "0 < y"
  shows "binary64 (binary64 y / 2) = binary64 y / 2"
proof -
  from binary64_form [OF assms] obtain k j
    where k: "\<bar>k\<bar> \<le> 2 ^ 53" and b: "binary64 y = of_int k * 2 powi j" by blast
  have "(2::rat) powi (j - 1) = 2 powi j / 2"
    using power_int_diff [of "2::rat" j 1] by simp
  then have h: "binary64 y / 2 = of_int k * 2 powi (j - 1)" unfolding b by simp
  show ?thesis unfolding h by (rule binary64_dyadic [OF k])
qed

lemma float_ratio: "float_sub (float_div 20 17) 1 = 794752875418323 / 4503599627370496"
proof -
  have "binary64 (binary64 (20 / 17) - 1) = 794752875418323 / 4503599627370496"
    by code_simp
  then show ?thesis by (simp add: float_sub_def float_div_def)
qed

lemma padding_factor_exact:
  assumes "wd < 2 ^ 48"
  shows "padding_factor wd = (3 * int wd) div 34"
proof (cases "wd = 0")
  case True
  then show ?thesis
    by (simp add: padding_factor_def float_div_def float_mul_def float_of_int_def binary64_def)
next
  case False
  define w :: rat where "w = of_nat wd"
  define c :: rat where "c = 794752875418323 / 4503599627370496"
  define n where "n = (3 * int wd) div 34"
  define y where "y = w * c"
  have w0: "0 < w" using False by (simp add: w_def)
  have wlt: "w < 2 ^ 48"
  proof -
    have "rat_of_nat wd < of_nat (2 ^ 48)" using assms by (simp only: of_nat_less_iff)
    then show ?thesis by (simp add: w_def)
  qed
  have fw: "float_of_int (int wd) = w"
  proof -
    have "\<bar>int wd\<bar> < 2 ^ 52" using assms by simp
    from binary64_of_int [OF this] show ?thesis by (simp add: float_of_int_def w_def)
  qed
  have y0: "0 < y" using w0 by (simp add: y_def c_def)
  have y53: "y < 2 ^ 53" using wlt w0 by (simp add: y_def c_def)
  have n1: "34 * n \<le> 3 * int wd" and n2: "3 * int wd < 34 * n + 34"
    unfolding n_def by presburger+
  have r1: "34 * rat_of_int n \<le> 3 * w"
  proof -
    have "rat_of_int (34 * n) \<le> of_int (3 * int wd)" using n1 by (simp only: of_int_le_iff)
    then show ?thesis by (simp add: w_def)
  qed
  have r2: "3 * w \<le> 34 * rat_of_int n + 33"
  proof -
    have "3 * int wd \<le> 34 * n + 33" using n2 by simp
    then have "rat_of_int (3 * int wd) \<le> of_int (34 * n + 33)" by (simp only: of_int_le_iff)
    then show ?thesis by (simp add: w_def)
  qed
  have lo: "rat_of_int (2 * n) \<le> y"
    using r1 w0 by (simp add: y_def c_def)
  have hi: "y * (1 + 1 / 2 ^ 53) < rat_of_int (2 * n + 2)"
    using r2 wlt w0 by (simp add: y_def c_def)
  define z where "z = binary64 y"
  have z1: "rat_of_int (2 * n) \<le> z" unfolding z_def by (rule binary64_ge_int [OF y0 y53 lo])
  have z2: "z < rat_of_int (2 * n + 2)" unfolding z_def by (rule binary64_less_int [OF y0 y53 hi])
  have half: "binary64 (z / 2) = z / 2" unfolding z_def by (rule binary64_half_exact [OF y0])
  have zz: "float_mul (float_of_int (int wd)) (float_sub (float_div 20 17) 1) = z"
    unfolding float_ratio fw float_mul_def z_def y_def c_def ..
  have "padding_factor wd = \<lfloor>z / 2\<rfloor>"
    unfolding padding_factor_def Let_def zz unfolding float_div_def half ..
  also have "\<dots> = n"
  proof (rule floor_unique)
    show "of_int n \<le> z / 2" using z1 by simp
    show "z / 2 < of_int n + 1" using z2 by simp
  qed
  finally show ?thesis unfolding n_def .
qed

lemma padding_factor_formula:
  assumes "wd < 2 ^ 48"
  shows "padding_factor wd = \<lfloor>rat_of_nat wd * (20 / 17 - 1) / 2\<rfloor>"
proof -
  have "rat_of_nat wd * (20 / 17 - 1) / 2 = rat_of_int (3 * int wd) / rat_of_int 34"
    by simp
  then have "\<lfloor>rat_of_nat wd * (20 / 17 - 1) / 2\<rfloor> = (3 * int wd) div 34"
    by (simp only: floor_divide_of_int_eq)
  then show ?thesis using padding_factor_exact [OF assms] by simp
qed

section \<open>Properties of the steps of polycut\<close>

lemma os_path_isfile_logging_info [simp]:
  "os_path_isfile (logging_info e s) = os_path_isfile s"
  by (rule ext) (simp add: os_path_isfile_def logging_info_def)

lemma find_candidates_nonempty:
  "find P (map (\<lambda>ext. p @ ext) [''.png'', ''.jpeg'', ''.jpg'']) \<noteq> Some []"
  by (auto split: if_splits)

lemma square_crop_Inr:
  assumes "square_crop s im = Inr (s3, im')"
  shows "files s3 = files s" and "logged s3 = logged s"
    and "width (images s ! im) \<le> height (images s ! im) \<Longrightarrow> s3 = s \<and> im' = im"
    and "width (images s ! im) > height (images s ! im) \<Longrightarrow>
           im' = length (images s) \<and>
           (\<exists>x0 y0 x1 y1. images s3 = images s @ [crop_pixels (images s ! im) (x0, y0, x1, y1)] \<and>
              (case crop_box (width (images s ! im)) (height (images s ! im)) of
                 (b0, b1, b2, b3) \<Rightarrow> x0 = round_half_even b0 \<and> y0 = round_half_even b1 \<and>
                    x1 = round_half_even b2 \<and> y1 = round_half_even b3))"
    and "memory s3 = memory s"
  using assms
  by (auto simp add: square_crop_def crop_def Let_def split: if_splits prod.splits)

lemma size_apply_alpha:
  "width (apply_alpha p m) = width p" "height (apply_alpha p m) = height p"
  by (simp_all add: apply_alpha_def)

lemma polycut_found:
  fixes s :: "rgba world" and draw :: "(real \<times> real) list \<Rightarrow> nat \<Rightarrow> nat \<Rightarrow> bool"
  assumes found: "find (os_path_isfile s)
                    (map (\<lambda>ext. os_path_join directory name @ ext) [''.png'', ''.jpeg'', ''.jpg''])
                  = Some file_name"
    and src: "files s file_name = Some (Image_data src)"
    and sq: "square_crop (s\<lparr>images := images s @ [src],
                             logged := logged s @ [(INFO, Processing_image name directory)]\<rparr>)
               (length (images s)) = Inr (s3, im')"
    and im': "im' < length (images s3)"
  defines "cropped \<equiv> images s3 ! im'"
  defines "pf \<equiv> padding_factor (width cropped)"
  defines "padded \<equiv> paste_pixels
      \<lparr>width = nat (int (width cropped) + pf + pf), height = nat (int (height cropped) + pf + pf),
       rows = replicate (nat (int (height cropped) + pf + pf))
                (replicate (nat (int (width cropped) + pf + pf)) white)\<rparr> cropped (pf, pf)"
  defines "r \<equiv> real (min (width src) (height src)) *
                  geometry_factor (width cropped) (height cropped)"
  defines "out \<equiv> apply_alpha padded
      (polygon_mask draw (hexagon r (width padded) (height padded))
         (width padded) (height padded))"
  defines "fs \<equiv> (if files s directory = None then (files s)(directory \<mapsto> Directory)
                   else files s)"
  defines "out_path \<equiv> os_path_join directory (name @ ''_hex.png'')"
  defines "lg \<equiv> logged s @ [(INFO, Processing_image name directory),
                   (INFO, Adding_margin pf pf pf pf white)] @
                 (if files s directory = None then [(INFO, Created_directory directory)] else [])"
  shows "polycut draw s name directory =
     (if 2 ^ 31 \<le> int (width cropped) + pf + pf \<or> 2 ^ 31 \<le> int (height cropped) + pf + pf
      then Inl OverflowError
      else if \<not> memory s (nat (int (width cropped) + pf + pf))
                         (nat (int (height cropped) + pf + pf)) then Inl MemoryError
      else if files s directory = None \<and> directory = [] then Inl FileNotFoundError
      else if width padded = 0 \<or> height padded = 0 then Inl SystemError
      else if fs out_path = Some Directory then Inl IsADirectoryError
      else Inr \<lparr>memory = memory s, images = images s3 @ [padded, out],
                 files = fs(out_path \<mapsto> Image_data out),
                 logged = lg @ [(INFO, Saved_hexagonal_image out_path)]\<rparr>)"
proof -
  have pf: "0 \<le> pf" unfolding pf_def by (rule padding_factor_nonneg)
  have m3: "memory s3 = memory s" using square_crop_Inr(5) [OF sq] by simp
  have op: "Image_open_convert (logging_info (Processing_image name directory) s) file_name
      = Inr (s\<lparr>images := images s @ [src],
                logged := logged s @ [(INFO, Processing_image name directory)]\<rparr>,
             length (images s))"
    using src by (simp add: Image_open_convert_def logging_info_def)
  have f3: "files s3 = files s"
    and l3: "logged s3 = logged s @ [(INFO, Processing_image name directory)]"
    using square_crop_Inr(1,2) [OF sq] by simp_all
  have ne: "Some file_name \<noteq> Some []" using found find_candidates_nonempty by metis
  note unfold = polycut_def Let_def os_path_isfile_logging_info found
  consider (overflow) "2 ^ 31 \<le> int (width cropped) + pf + pf
                     \<or> 2 ^ 31 \<le> int (height cropped) + pf + pf"
    | (no_memory) "int (width cropped) + pf + pf < 2 ^ 31"
        "int (height cropped) + pf + pf < 2 ^ 31"
        "\<not> memory s (nat (int (width cropped) + pf + pf)) (nat (int (height cropped) + pf + pf))"
    | (made) "int (width cropped) + pf + pf < 2 ^ 31"
        "int (height cropped) + pf + pf < 2 ^ 31"
        "memory s (nat (int (width cropped) + pf + pf)) (nat (int (height cropped) + pf + pf))"
    by linarith
  then show ?thesis
  proof cases
    case overflow
    have am: "add_margin s3 im' pf pf pf pf white = Inl OverflowError"
      using pf overflow unfolding cropped_def by (intro add_margin_OverflowError) simp_all
    have rhs: "polycut draw s name directory = Inl OverflowError"
      unfolding unfold
      using ne
      apply (simp only: option.simps if_False simp_thms option.sel op sum.case prod.case)
      apply (simp only: sq sum.case prod.case image.simps world.simps nth_append_length
          cropped_def [symmetric])
      apply (simp only: pf_def [symmetric] am sum.case)
      done
    show ?thesis unfolding rhs using overflow by simp
  next
    case no_memory
    have am: "add_margin s3 im' pf pf pf pf white = Inl MemoryError"
      using pf no_memory unfolding cropped_def m3 [symmetric]
      by (intro add_margin_MemoryError) simp_all
    have rhs: "polycut draw s name directory = Inl MemoryError"
      unfolding unfold
      using ne
      apply (simp only: option.simps if_False simp_thms option.sel op sum.case prod.case)
      apply (simp only: sq sum.case prod.case image.simps world.simps nth_append_length
          cropped_def [symmetric])
      apply (simp only: pf_def [symmetric] am sum.case)
      done
    show ?thesis unfolding rhs using no_memory by simp
  next
    case made
    have am: "add_margin s3 im' pf pf pf pf white =
       Inr (\<lparr>memory = memory s3, images = images s3 @ [padded], files = files s3,
             logged = logged s3 @ [(INFO, Adding_margin pf pf pf pf white)]\<rparr>,
            length (images s3))"
      using pf im' made
      unfolding padded_def cropped_def m3 [symmetric]
      by (intro add_margin_Inr) (simp_all add: c_int_def)
    have no: "\<not> (2 ^ 31 \<le> int (width cropped) + pf + pf
               \<or> 2 ^ 31 \<le> int (height cropped) + pf + pf)"
      using made by simp
    show ?thesis
      unfolding unfold if_not_P [OF no]
      using ne made(3)
      apply (simp only: option.simps if_False simp_thms option.sel op sum.case prod.case)
      apply (simp only: sq sum.case prod.case image.simps world.simps nth_append_length
          cropped_def [symmetric])
      apply (simp only: pf_def [symmetric] am sum.case prod.case world.simps nth_append_length)
      apply (cases "directory = []"; cases "files s directory")
         apply (simp_all add: Image_save_def os_path_exists_def os_makedirs_def logging_info_def
          nth_append f3 l3 m3 size_apply_alpha fs_def lg_def out_path_def out_def r_def)
      done
  qed
qed

lemma square_crop_post_crop:
  assumes "square_crop s im = Inr (s3, im')" and "im < length (images s)"
  shows "images s3 ! im' = post_crop (images s ! im)"
    and "im' < length (images s3)"
    and "images s3 = images s @ (if height (images s ! im) < width (images s ! im)
                                 then [post_crop (images s ! im)] else [])"
    and "files s3 = files s" and "logged s3 = logged s" and "memory s3 = memory s"
  using assms
  by (auto simp add: square_crop_def crop_def post_crop_def Let_def nth_append
      split: if_splits prod.splits)

lemma crop_box_rounded:
  assumes "ht < wd" and "wd < 2 ^ 52"
  shows "crop s im (crop_box wd ht) =
     Inr (s\<lparr>images := images s @
            [crop_pixels (images s ! im)
               (round_half_even (of_int (int wd - int ht) / 2), 0,
                round_half_even (of_int (int wd + int ht) / 2), int ht)]\<rparr>, length (images s))"
proof -
  have s: "rat_of_int (int wd - int ht) / 2 + rat_of_nat ht = rat_of_int (int wd + int ht) / 2"
    by (simp add: field_simps)
  have z: "round_half_even 0 = 0" using round_half_even_of_int [of 0] by simp
  have h: "round_half_even (rat_of_nat ht) = int ht"
    using round_half_even_of_int [of "int ht"] by simp
  show ?thesis
    unfolding crop_box_exact [OF assms] crop_def s
    by (simp add: Let_def z h s)
qed

lemma square_crop_total:
  assumes "width (images s ! im) < 2 ^ 52"
  shows "\<exists>s3 im'. square_crop s im = Inr (s3, im')"
proof (cases "height (images s ! im) < width (images s ! im)")
  case True
  then show ?thesis
    unfolding square_crop_def Let_def using crop_box_rounded [OF True assms] by simp
next
  case False
  then show ?thesis by (simp add: square_crop_def Let_def)
qed

lemma add_margin_with_margin:
  assumes "0 \<le> int (width (images s ! pil_img)) + mright + mleft"
    and "0 \<le> int (height (images s ! pil_img)) + mtop + mbottom"
    and "int (width (images s ! pil_img)) + mright + mleft < 2 ^ 31"
    and "int (height (images s ! pil_img)) + mtop + mbottom < 2 ^ 31"
    and "memory s (nat (int (width (images s ! pil_img)) + mright + mleft))
                  (nat (int (height (images s ! pil_img)) + mtop + mbottom))"
    and "c_int mleft" and "c_int mtop"
    and "c_int (mleft + int (width (images s ! pil_img)))"
    and "c_int (mtop + int (height (images s ! pil_img)))"
    and "pil_img < length (images s)"
  shows "add_margin s pil_img mtop mright mbottom mleft color =
     Inr (\<lparr>memory = memory s,
           images = images s @
             [with_margin (images s ! pil_img) mtop mright mbottom mleft color],
           files = files s,
           logged = logged s @ [(INFO, Adding_margin mtop mright mbottom mleft color)]\<rparr>,
          length (images s))"
  unfolding with_margin_def using assms by (rule add_margin_Inr)

lemma size_with_margin:
  "width (with_margin src mtop mright mbottom mleft color) = nat (int (width src) + mright + mleft)"
  "height (with_margin src mtop mright mbottom mleft color) = nat (int (height src) + mtop + mbottom)"
  by (simp_all add: with_margin_def paste_pixels_def)

lemma polycut_result:
  fixes s :: "rgba world" and draw :: "(real \<times> real) list \<Rightarrow> nat \<Rightarrow> nat \<Rightarrow> bool"
  assumes found: "find (os_path_isfile s)
                    (map (\<lambda>ext. os_path_join directory name @ ext) [''.png'', ''.jpeg'', ''.jpg''])
                  = Some file_name"
    and src: "files s file_name = Some (Image_data src)"
    and sq: "square_crop (s\<lparr>images := images s @ [src],
                             logged := logged s @ [(INFO, Processing_image name directory)]\<rparr>)
               (length (images s)) = Inr (s3, im')"
  shows "polycut draw s name directory =
     (let cropped = post_crop src;
          pf = padding_factor (width cropped);
          padded = with_margin cropped pf pf pf pf white;
          r = real (min (width src) (height src)) *
                geometry_factor (width cropped) (height cropped);
          out = apply_alpha padded
                  (polygon_mask draw (hexagon r (width padded) (height padded))
                     (width padded) (height padded));
          fs = (if files s directory = None then (files s)(directory \<mapsto> Directory)
                else files s);
          out_path = os_path_join directory (name @ ''_hex.png'')
      in if 2 ^ 31 \<le> int (width cropped) + pf + pf \<or>
            2 ^ 31 \<le> int (height cropped) + pf + pf then Inl OverflowError
         else if \<not> memory s (nat (int (width cropped) + pf + pf))
                            (nat (int (height cropped) + pf + pf)) then Inl MemoryError
         else if files s directory = None \<and> directory = [] then Inl FileNotFoundError
         else if width padded = 0 \<or> height padded = 0 then Inl SystemError
         else if fs out_path = Some Directory then Inl IsADirectoryError
         else Inr \<lparr>memory = memory s, images = images s @ [src] @
                             (if height src < width src then [cropped] else []) @ [padded, out],
                    files = fs(out_path \<mapsto> Image_data out),
                    logged = logged s @ [(INFO, Processing_image name directory),
                               (INFO, Adding_margin pf pf pf pf white)] @
                             (if files s directory = None
                              then [(INFO, Created_directory directory)] else []) @
                             [(INFO, Saved_hexagonal_image out_path)]\<rparr>)"
proof -
  let ?s2 = "s\<lparr>images := images s @ [src],
               logged := logged s @ [(INFO, Processing_image name directory)]\<rparr>"
  have len: "length (images s) < length (images ?s2)" by simp
  note pc = square_crop_post_crop [OF sq len]
  have c: "images s3 ! im' = post_crop src" using pc(1) by simp
  have i3: "images s3 = images s @ [src] @ (if height src < width src then [post_crop src] else [])"
    using pc(3) by simp
  note pf = polycut_found [OF found src sq pc(2), of draw, unfolded c, folded with_margin_def]
  show ?thesis
    unfolding Let_def by (subst pf) (simp only: i3 append_assoc)
qed

lemma polycut_open_error:
  fixes s :: "rgba world"
  assumes found: "find (os_path_isfile s)
                    (map (\<lambda>ext. os_path_join directory name @ ext) [''.png'', ''.jpeg'', ''.jpg''])
                  = Some file_name"
    and op: "Image_open_convert (logging_info (Processing_image name directory) s) file_name
               = Inl e"
  shows "polycut draw s name directory = Inl e"
proof -
  have ne: "Some file_name \<noteq> Some []" using found find_candidates_nonempty by metis
  show ?thesis
    unfolding polycut_def Let_def os_path_isfile_logging_info found
    using ne
    by (simp only: option.simps if_False simp_thms option.sel op sum.case)
qed

lemma polycut_crop_error:
  fixes s :: "rgba world"
  assumes found: "find (os_path_isfile s)
                    (map (\<lambda>ext. os_path_join directory name @ ext) [''.png'', ''.jpeg'', ''.jpg''])
                  = Some file_name"
    and src: "files s file_name = Some (Image_data src)"
    and sq: "square_crop (s\<lparr>images := images s @ [src],
                             logged := logged s @ [(INFO, Processing_image name directory)]\<rparr>)
               (length (images s)) = Inl e"
  shows "polycut draw s name directory = Inl e"
proof -
  have ne: "Some file_name \<noteq> Some []" using found find_candidates_nonempty by metis
  have op: "Image_open_convert (logging_info (Processing_image name directory) s) file_name
      = Inr (s\<lparr>images := images s @ [src],
                logged := logged s @ [(INFO, Processing_image name directory)]\<rparr>,
             length (images s))"
    using src by (simp add: Image_open_convert_def logging_info_def)
  show ?thesis
    unfolding polycut_def Let_def os_path_isfile_logging_info found
    using ne
    by (simp only: option.simps if_False simp_thms option.sel op sum.case prod.case sq)
qed

lemma polycut_Inr_found:
  fixes s :: "rgba world"
  assumes run: "polycut draw s name directory = Inr s'"
    and found: "find (os_path_isfile s)
                    (map (\<lambda>ext. os_path_join directory name @ ext) [''.png'', ''.jpeg'', ''.jpg''])
                  = Some file_name"
  shows "\<exists>src s3 im'. files s file_name = Some (Image_data src) \<and>
           square_crop (s\<lparr>images := images s @ [src],
                             logged := logged s @ [(INFO, Processing_image name directory)]\<rparr>)
               (length (images s)) = Inr (s3, im')"
proof -
  have "\<exists>src. files s file_name = Some (Image_data src)"
  proof (rule ccontr)
    assume "\<not> ?thesis"
    then have "Image_open_convert (logging_info (Processing_image name directory) s) file_name
                 = Inl UnidentifiedImageError"
      by (auto simp add: Image_open_convert_def logging_info_def
          split: option.splits node.splits)
    from polycut_open_error [OF found this] run show False by simp
  qed
  then obtain src where src: "files s file_name = Some (Image_data src)" ..
  let ?s2 = "s\<lparr>images := images s @ [src],
               logged := logged s @ [(INFO, Processing_image name directory)]\<rparr>"
  have "\<exists>s3 im'. square_crop ?s2 (length (images s)) = Inr (s3, im')"
  proof (cases "square_crop ?s2 (length (images s))")
    case (Inl e)
    from polycut_crop_error [OF found src this] run show ?thesis by simp
  next
    case (Inr p)
    then show ?thesis by (cases p) simp
  qed
  with src show ?thesis by blast
qed

lemma polycut_succeeds:
  fixes s :: "rgba world"
  assumes found: "find (os_path_isfile s)
                    (map (\<lambda>ext. os_path_join directory name @ ext) [''.png'', ''.jpeg'', ''.jpg''])
                  = Some file_name"
    and src: "files s file_name = Some (Image_data src)"
    and bound: "width src < 2 ^ 52"
    and nonempty: "0 < width (post_crop src)" "0 < height (post_crop src)"
    and nodir: "files s (os_path_join directory (name @ ''_hex.png'')) \<noteq> Some Directory"
               "os_path_join directory (name @ ''_hex.png'') \<noteq> directory"
               "directory \<noteq> []"
    and made: "int (width (post_crop src)) + padding_factor (width (post_crop src))
                 + padding_factor (width (post_crop src)) < 2 ^ 31"
              "int (height (post_crop src)) + padding_factor (width (post_crop src))
                 + padding_factor (width (post_crop src)) < 2 ^ 31"
              "memory s (nat (int (width (post_crop src)) + padding_factor (width (post_crop src))
                               + padding_factor (width (post_crop src))))
                        (nat (int (height (post_crop src)) + padding_factor (width (post_crop src))
                               + padding_factor (width (post_crop src))))"
  shows "\<exists>s'. polycut draw s name directory = Inr s'"
proof -
  let ?s2 = "s\<lparr>images := images s @ [src],
               logged := logged s @ [(INFO, Processing_image name directory)]\<rparr>"
  have "width (images ?s2 ! length (images s)) < 2 ^ 52" using bound by simp
  from square_crop_total [OF this]
  obtain s3 im' where sq: "square_crop ?s2 (length (images s)) = Inr (s3, im')" by blast
  have pf: "0 \<le> padding_factor (width (post_crop src))" by (rule padding_factor_nonneg)
  show ?thesis
    unfolding polycut_result [OF found src sq] Let_def
    using nonempty nodir pf made by (simp add: size_with_margin)
qed

lemma test_world_found:
  "find (os_path_isfile test_world)
     (map (\<lambda>ext. os_path_join ''output'' ''test'' @ ext) [''.png'', ''.jpeg'', ''.jpg''])
   = Some ''output/test.png''"
  by (simp add: test_world_def os_path_isfile_def os_path_join_def)

lemma post_crop_test_image: "post_crop test_image = test_image"
  by (simp add: post_crop_def test_image_def)

lemma padding_factor_100: "padding_factor 100 = 8"
  by code_simp

lemma test_image_wh: "width test_image = 100" "height test_image = 100"
  by (simp_all add: test_image_def)

lemma test_world_succeeds: "\<exists>s'. polycut draw test_world ''test'' ''output'' = Inr s'"
proof (rule polycut_succeeds [OF test_world_found])
  show "files test_world ''output/test.png'' = Some (Image_data test_image)"
    by (simp add: test_world_def)
  show "width test_image < 2 ^ 52" by (simp add: test_image_def)
  show "0 < width (post_crop test_image)" "0 < height (post_crop test_image)"
    by (simp_all add: post_crop_test_image) (simp_all add: test_image_def)
  show "files test_world (os_path_join ''output'' (''test'' @ ''_hex.png'')) \<noteq> Some Directory"
    by (simp add: test_world_def os_path_join_def)
  show "os_path_join ''output'' (''test'' @ ''_hex.png'') \<noteq> ''output''"
    by (simp add: os_path_join_def)
  show "''output'' \<noteq> []" by simp
  show "int (width (post_crop test_image)) + padding_factor (width (post_crop test_image))
          + padding_factor (width (post_crop test_image)) < 2 ^ 31"
    "int (height (post_crop test_image)) + padding_factor (width (post_crop test_image))
          + padding_factor (width (post_crop test_image)) < 2 ^ 31"
    "memory test_world
       (nat (int (width (post_crop test_image)) + padding_factor (width (post_crop test_image))
              + padding_factor (width (post_crop test_image))))
       (nat (int (height (post_crop test_image)) + padding_factor (width (post_crop test_image))
              + padding_factor (width (post_crop test_image))))"
    unfolding post_crop_test_image test_image_wh padding_factor_100
    by (simp_all add: test_world_def test_memory_def)
qed

lemma getpixel_apply_alpha:
  assumes "x < width p" and "y < height p"
  shows "getpixel (apply_alpha p m) x y =
     \<lparr>red = red (getpixel p x y), green = green (getpixel p x y),
      blue = blue (getpixel p x y), alpha = m ! y ! x * 255\<rparr>"
  using assms by (simp add: getpixel_def apply_alpha_def)

lemma polygon_mask_nth:
  assumes "x < wd" and "y < ht"
  shows "polygon_mask draw polygon wd ht ! y ! x = (if draw polygon x y then 1 else 0)"
  using assms by (simp add: polygon_mask_def)

lemma two_candidates_found:
  "find (os_path_isfile two_candidates_world)
     (map (\<lambda>ext. os_path_join ''output'' ''test'' @ ext) [''.png'', ''.jpeg'', ''.jpg''])
   = Some ''output/test.png''"
  by (simp add: two_candidates_world_def test_world_def os_path_isfile_def os_path_join_def)

lemma square_crop_square:
  assumes "width (images s ! im) \<le> height (images s ! im)"
  shows "square_crop s im = Inr (s, im)"
  using assms by (simp add: square_crop_def Let_def)

lemma polycut_two_candidates:
  "polycut draw_triangle two_candidates_world ''test'' ''output'' =
     Inr \<lparr>memory = test_memory, images = [test_image, with_margin test_image 8 8 8 8 white, test_hex_image],
          files = (files two_candidates_world)(''output/test_hex.png'' \<mapsto> Image_data test_hex_image),
          logged = [(INFO, Processing_image ''test'' ''output''),
                    (INFO, Adding_margin 8 8 8 8 white),
                    (INFO, Saved_hexagonal_image ''output/test_hex.png'')]\<rparr>"
proof -
  have src: "files two_candidates_world ''output/test.png'' = Some (Image_data test_image)"
    by (simp add: two_candidates_world_def test_world_def)
  let ?s2 = "two_candidates_world\<lparr>images := images two_candidates_world @ [test_image],
      logged := logged two_candidates_world @ [(INFO, Processing_image ''test'' ''output'')]\<rparr>"
  have sq: "square_crop ?s2 (length (images two_candidates_world))
              = Inr (?s2, length (images two_candidates_world))"
    by (rule square_crop_square) (simp add: test_image_def)
  have wh: "width test_image = 100" "height test_image = 100" by (simp_all add: test_image_def)
  have fs: "files two_candidates_world ''output'' = Some Directory"
    "files two_candidates_world ''output/test_hex.png'' = None"
    "images two_candidates_world = []" "logged two_candidates_world = []"
    "memory two_candidates_world = test_memory"
    by (simp_all add: two_candidates_world_def test_world_def)
  show ?thesis
    unfolding polycut_result [OF two_candidates_found src sq] Let_def post_crop_test_image
      wh padding_factor_100
    by (simp add: size_with_margin wh fs os_path_join_def geometry_factor_def test_hex_image_def
        test_memory_def)
qed

lemma getpixel_with_margin:
  assumes "x < width (with_margin src mtop mright mbottom mleft color)"
    and "y < height (with_margin src mtop mright mbottom mleft color)"
  shows "getpixel (with_margin src mtop mright mbottom mleft color) x y =
     (if mleft \<le> int x \<and> int x < mleft + int (width src) \<and>
         mtop \<le> int y \<and> int y < mtop + int (height src)
      then getpixel src (nat (int x - mleft)) (nat (int y - mtop)) else color)"
  using assms unfolding with_margin_def
  by (subst getpixel_paste_new) (simp_all add: paste_pixels_def)

lemma wide_world_found:
  "find (os_path_isfile wide_world)
     (map (\<lambda>ext. os_path_join ''output'' ''wide'' @ ext) [''.png'', ''.jpeg'', ''.jpg''])
   = Some ''output/wide.png''"
  by (simp add: wide_world_def os_path_isfile_def os_path_join_def)

lemma crop_box_4_3: "crop_box 4 3 = (1 / 2, 0, 7 / 2, 3)"
proof -
  have "crop_box 4 3 =
     (of_int (int 4 - int 3) / 2, 0, of_int (int 4 - int 3) / 2 + of_nat 3, of_nat 3)"
    by (rule crop_box_exact) simp_all
  then show ?thesis by simp
qed

lemma round_half_even_examples:
  "round_half_even (1 / 2) = 0" "round_half_even (7 / 2) = 4"
  "round_half_even 0 = 0" "round_half_even 3 = 3"
  using round_half_even_half [of 1] round_half_even_half [of 7]
    round_half_even_of_int [of 0] round_half_even_of_int [of 3]
  by simp_all

lemma post_crop_wide_image: "post_crop wide_image = crop_pixels wide_image (0, 0, 4, 3)"
  by (simp add: post_crop_def wide_image_def crop_box_4_3 round_half_even_examples)

lemma size_crop_pixels:
  "width (crop_pixels src (x0, y0, x1, y1)) = nat (x1 - x0)"
  "height (crop_pixels src (x0, y0, x1, y1)) = nat (y1 - y0)"
  by (simp_all add: crop_pixels_def)

lemma padding_factor_4: "padding_factor 4 = 0"
  by code_simp

lemma post_crop_size:
  assumes "height src < width src" and "width src < 2 ^ 52"
  shows "height (post_crop src) = height src"
    and "width (post_crop src) =
           nat (round_half_even (of_int (int (width src) + int (height src)) / 2)
                - round_half_even (of_int (int (width src) - int (height src)) / 2))"
proof -
  have s: "rat_of_int (int (width src) - int (height src)) / 2 + rat_of_nat (height src)
           = rat_of_int (int (width src) + int (height src)) / 2"
    by (simp add: field_simps)
  have h: "round_half_even (rat_of_nat (height src)) = int (height src)"
    using round_half_even_of_int [of "int (height src)"] by simp
  have z: "round_half_even 0 = 0" using round_half_even_of_int [of 0] by simp
  have pc: "post_crop src = crop_pixels src
     (round_half_even (of_int (int (width src) - int (height src)) / 2), 0,
      round_half_even (of_int (int (width src) + int (height src)) / 2), int (height src))"
  proof -
    have "post_crop src =
        (case crop_box (width src) (height src) of
           (b0, b1, b2, b3) \<Rightarrow>
             crop_pixels src (round_half_even b0, round_half_even b1,
                              round_half_even b2, round_half_even b3))"
      using assms(1) by (simp add: post_crop_def)
    also have "\<dots> = crop_pixels src
       (round_half_even (of_int (int (width src) - int (height src)) / 2), round_half_even 0,
        round_half_even (of_int (int (width src) - int (height src)) / 2 + of_nat (height src)),
        round_half_even (of_nat (height src)))"
      unfolding crop_box_exact [OF assms] by (simp only: prod.case)
    finally show ?thesis unfolding s h z .
  qed
  show "height (post_crop src) = height src" by (simp add: pc size_crop_pixels)
  show "width (post_crop src) =
           nat (round_half_even (of_int (int (width src) + int (height src)) / 2)
                - round_half_even (of_int (int (width src) - int (height src)) / 2))"
    by (simp add: pc size_crop_pixels)
qed

lemma rounded_width_cases:
  fixes W H :: int
  assumes "0 \<le> H" and "H < W"
  shows "round_half_even (of_int (W + H) / 2) - round_half_even (of_int (W - H) / 2) =
     (if odd H \<and> odd (W - H) then (if even ((W - H) div 2) then H + 1 else H - 1) else H)"
proof -
  define d where "d = W - H"
  have W: "W = H + d" by (simp add: d_def)
  have a: "(H + d + H) div 2 = H + d div 2" by presburger
  have par: "even (H + d + H) \<longleftrightarrow> even d" by simp
  show ?thesis
    unfolding round_half_even_half d_def [symmetric] unfolding W a par
    by (auto simp add: a)
qed

lemma post_crop_width:
  assumes "height src < width src" and "width src < 2 ^ 52"
  shows "int (width (post_crop src)) =
     (if odd (height src) \<and> even (width src)
      then (if even ((int (width src) - int (height src)) div 2)
            then int (height src) + 1 else int (height src) - 1)
      else int (height src))"
proof -
  have "0 \<le> int (height src)" "int (height src) < int (width src)" using assms(1) by simp_all
  note c = rounded_width_cases [OF this]
  have nn: "0 \<le> (if odd (int (height src)) \<and> odd (int (width src) - int (height src))
      then (if even ((int (width src) - int (height src)) div 2)
            then int (height src) + 1 else int (height src) - 1)
      else int (height src))"
    using odd_pos [of "height src"] by auto
  have w: "int (width (post_crop src)) =
      (if odd (int (height src)) \<and> odd (int (width src) - int (height src))
      then (if even ((int (width src) - int (height src)) div 2)
            then int (height src) + 1 else int (height src) - 1)
      else int (height src))"
    unfolding post_crop_size(2) [OF assms] c using nn by (simp only: int_nat_eq if_True)
  show ?thesis
  proof (cases "odd (height src) \<and> even (width src)")
    case True
    then have "odd (int (height src)) \<and> odd (int (width src) - int (height src))" by simp
    with True w show ?thesis by simp
  next
    case False
    then have "\<not> (odd (int (height src)) \<and> odd (int (width src) - int (height src)))"
      by auto
    with False w show ?thesis by auto
  qed
qed

lemma hexagon_map:
  "hexagon r pw ph =
     map (\<lambda>i. (r * cos (real i * 2 * pi / 6) + real pw / 2,
                r * sin (real i * 2 * pi / 6) + real ph * 0.89 / 2)) [0..<6]"
proof -
  have "fold (\<lambda>i polygon. polygon @ [f i]) xs acc = acc @ map f xs"
    for f :: "nat \<Rightarrow> real \<times> real" and xs acc
    by (induction xs arbitrary: acc) simp_all
  from this [of _ "[0..<6]" "[]"] show ?thesis
    unfolding hexagon_def Let_def by simp
qed

lemma radius_nonneg: "0 \<le> real n * geometry_factor wd ht"
  by (simp add: geometry_factor_def)




section \<open>The claims\<close>

text \<open>
  Claim C1. For non-negative margins and a resulting size that Pillow can produce (both
  sides fit a C int, and the machine can allocate the image), \<open>add_margin\<close> returns a new
  image object of size \<open>(w + left + right, h + top + bottom)\<close>; the rectangle of size
  \<open>(w, h)\<close> at offset \<open>(left, top)\<close> holds the pixels of the input, every other pixel
  is the fill color, and the input image (as every image that existed before the call) is
  unchanged.
\<close>

theorem add_margin_spec:
  assumes "pil_img < length (images s)"
    and "0 \<le> mtop" and "0 \<le> mright" and "0 \<le> mbottom" and "0 \<le> mleft"
    and "int (width (images s ! pil_img)) + mleft + mright < 2 ^ 31"
    and "int (height (images s ! pil_img)) + mtop + mbottom < 2 ^ 31"
    and "memory s (nat (int (width (images s ! pil_img)) + mleft + mright))
                  (nat (int (height (images s ! pil_img)) + mtop + mbottom))"
  shows "\<exists>s' result.
     add_margin s pil_img mtop mright mbottom mleft color = Inr (s', result) \<and>
     result = length (images s) \<and> length (images s') = Suc (length (images s)) \<and>
     int (width (images s' ! result)) = int (width (images s ! pil_img)) + mleft + mright \<and>
     int (height (images s' ! result)) = int (height (images s ! pil_img)) + mtop + mbottom \<and>
     wf_image (images s' ! result) \<and>
     (\<forall>x y. x < width (images s ! pil_img) \<and> y < height (images s ! pil_img) \<longrightarrow>
        getpixel (images s' ! result) (nat mleft + x) (nat mtop + y)
          = getpixel (images s ! pil_img) x y) \<and>
     (\<forall>x y. x < width (images s' ! result) \<and> y < height (images s' ! result) \<and>
        \<not> (nat mleft \<le> x \<and> x < nat mleft + width (images s ! pil_img) \<and>
           nat mtop \<le> y \<and> y < nat mtop + height (images s ! pil_img)) \<longrightarrow>
        getpixel (images s' ! result) x y = color) \<and>
     images s' ! pil_img = images s ! pil_img \<and>
     take (length (images s)) (images s') = images s \<and>
     files s' = files s"
proof -
  let ?src = "images s ! pil_img"
  let ?w = "nat (int (width ?src) + mright + mleft)"
  let ?h = "nat (int (height ?src) + mtop + mbottom)"
  let ?out = "paste_pixels \<lparr>width = ?w, height = ?h, rows = replicate ?h (replicate ?w color)\<rparr>
                ?src (mleft, mtop)"
  have run: "add_margin s pil_img mtop mright mbottom mleft color =
     Inr (\<lparr>memory = memory s, images = images s @ [?out], files = files s,
           logged = logged s @ [(INFO, Adding_margin mtop mright mbottom mleft color)]\<rparr>,
          length (images s))"
    using assms by (intro add_margin_Inr) (simp_all add: c_int_def add.commute add.left_commute)
  have inside: "getpixel ?out (nat mleft + x) (nat mtop + y) = getpixel ?src x y"
    if "x < width ?src" "y < height ?src" for x y
    using that assms by (subst getpixel_paste_new) (simp_all add: nat_add_distrib)
  have outside: "getpixel ?out x y = color"
    if "x < ?w" "y < ?h"
       "\<not> (nat mleft \<le> x \<and> x < nat mleft + width ?src \<and>
           nat mtop \<le> y \<and> y < nat mtop + height ?src)" for x y
    using that assms by (subst getpixel_paste_new) (auto simp add: nat_le_iff)
  show ?thesis
    unfolding run using assms inside outside
    by (simp add: nth_append wf_paste_pixels size_paste_pixels)
qed

theorem add_margin_spec_witness:
  "\<exists>s' result.
     add_margin \<lparr>memory = test_memory, images = [\<lparr>width = 2, height = 1, rows = [[5, 7]]\<rparr>], files = Map.empty,
                  logged = []\<rparr> 0 1 0 0 1 (0::nat) = Inr (s', result) \<and>
     result = 1 \<and> width (images s' ! result) = 3 \<and> height (images s' ! result) = 2 \<and>
     getpixel (images s' ! result) 1 1 = 5 \<and> getpixel (images s' ! result) 2 1 = 7 \<and>
     getpixel (images s' ! result) 0 0 = 0 \<and> getpixel (images s' ! result) 2 0 = 0 \<and>
     images s' ! 0 = \<lparr>width = 2, height = 1, rows = [[5, 7]]\<rparr>"
proof -
  let ?s = "\<lparr>memory = test_memory, images = [\<lparr>width = 2, height = 1, rows = [[5, 7 :: nat]]\<rparr>],
             files = Map.empty, logged = []\<rparr> :: nat world"
  obtain s' result where run: "add_margin ?s 0 1 0 0 1 0 = Inr (s', result)"
    and res: "result = length (images ?s)"
    and wd: "int (width (images s' ! result)) = int (width (images ?s ! 0)) + 1 + 0"
    and ht: "int (height (images s' ! result)) = int (height (images ?s ! 0)) + 1 + 0"
    and inside: "\<forall>x y. x < width (images ?s ! 0) \<and> y < height (images ?s ! 0) \<longrightarrow>
        getpixel (images s' ! result) (nat 1 + x) (nat 1 + y) = getpixel (images ?s ! 0) x y"
    and outside: "\<forall>x y. x < width (images s' ! result) \<and> y < height (images s' ! result) \<and>
        \<not> (nat 1 \<le> x \<and> x < nat 1 + width (images ?s ! 0) \<and>
           nat 1 \<le> y \<and> y < nat 1 + height (images ?s ! 0)) \<longrightarrow>
        getpixel (images s' ! result) x y = 0"
    and same: "images s' ! 0 = images ?s ! 0"
    using add_margin_spec [of 0 ?s 1 0 0 1 0] by (auto simp add: test_memory_def)
  have "getpixel (images s' ! result) 1 1 = 5" using inside [rule_format, of 0 0]
    by (simp add: getpixel_def)
  moreover have "getpixel (images s' ! result) 2 1 = 7" using inside [rule_format, of 1 0]
    by (simp add: getpixel_def numeral_2_eq_2)
  moreover have "getpixel (images s' ! result) 0 0 = 0" using outside [rule_format, of 0 0] wd ht
    by simp
  moreover have "getpixel (images s' ! result) 2 0 = 0" using outside [rule_format, of 2 0] wd ht
    by simp
  ultimately show ?thesis using run res wd ht same by simp
qed

text \<open>
  Claim C2. When \<open>polycut\<close> finds a source file and returns, the image written to
  \<open><directory>/<name>_hex.png\<close> has the size \<open>(w + 2 pf, h + 2 pf)\<close>, where
  \<open>(w, h)\<close> is the size of the image after the square crop and \<open>pf\<close> is
  \<open>padding_factor w\<close>, the floor of \<open>w * (20.0 / 17.0 - 1.0) / 2.0\<close> in double
  arithmetic; for a square input of side \<open>N\<close> both sides are \<open>N + 2 padding_factor N\<close>.
  For \<open>w\<close> below \<open>2 ^ 48\<close> the doubles give the floor of the exact quotient.
\<close>

theorem polycut_output_size:
  fixes s :: "rgba world"
  assumes run: "polycut draw s name directory = Inr s'"
    and found: "find (os_path_isfile s)
                    (map (\<lambda>ext. os_path_join directory name @ ext) [''.png'', ''.jpeg'', ''.jpg''])
                  = Some file_name"
  shows "\<exists>src out.
     files s file_name = Some (Image_data src) \<and>
     files s' (os_path_join directory (name @ ''_hex.png'')) = Some (Image_data out) \<and>
     int (width out) =
       int (width (post_crop src)) + 2 * padding_factor (width (post_crop src)) \<and>
     int (height out) =
       int (height (post_crop src)) + 2 * padding_factor (width (post_crop src)) \<and>
     (width src = height src \<longrightarrow>
        int (width out) = int (width src) + 2 * padding_factor (width src) \<and>
        int (height out) = int (width src) + 2 * padding_factor (width src)) \<and>
     (width (post_crop src) < 2 ^ 48 \<longrightarrow>
        padding_factor (width (post_crop src)) =
          \<lfloor>rat_of_nat (width (post_crop src)) * (20 / 17 - 1) / 2\<rfloor>)"
proof -
  from polycut_Inr_found [OF run found]
  obtain src s3 im' where src: "files s file_name = Some (Image_data src)"
    and sq: "square_crop (s\<lparr>images := images s @ [src],
                             logged := logged s @ [(INFO, Processing_image name directory)]\<rparr>)
               (length (images s)) = Inr (s3, im')" by blast
  define cropped where "cropped = post_crop src"
  define pf where "pf = padding_factor (width cropped)"
  define padded where "padded = with_margin cropped pf pf pf pf white"
  define out where "out = apply_alpha padded
      (polygon_mask draw
         (hexagon (real (min (width src) (height src)) *
                   geometry_factor (width cropped) (height cropped))
            (width padded) (height padded))
         (width padded) (height padded))"
  have pf: "0 \<le> pf" unfolding pf_def by (rule padding_factor_nonneg)
  have "files s' (os_path_join directory (name @ ''_hex.png'')) = Some (Image_data out)"
    using run unfolding polycut_result [OF found src sq] Let_def
    by (auto simp add: out_def padded_def pf_def cropped_def split: if_splits)
  moreover have "int (width out) = int (width cropped) + 2 * pf"
    "int (height out) = int (height cropped) + 2 * pf"
    using pf by (simp_all add: out_def padded_def size_apply_alpha size_with_margin)
  moreover have "cropped = src" if "width src = height src"
    using that by (simp add: cropped_def post_crop_def)
  moreover have "pf = \<lfloor>rat_of_nat (width cropped) * (20 / 17 - 1) / 2\<rfloor>"
    if "width cropped < 2 ^ 48"
    unfolding pf_def using that by (rule padding_factor_formula)
  ultimately show ?thesis
    using src unfolding pf_def cropped_def by auto
qed

theorem polycut_output_size_witness:
  "\<exists>s' out. polycut draw_triangle test_world ''test'' ''output'' = Inr s' \<and>
     files s' ''output/test_hex.png'' = Some (Image_data out) \<and>
     width out = 116 \<and> height out = 116"
proof -
  obtain s' where run: "polycut draw_triangle test_world ''test'' ''output'' = Inr s'"
    using test_world_succeeds by blast
  from polycut_output_size [OF run test_world_found]
  obtain src out where src: "files test_world ''output/test.png'' = Some (Image_data src)"
    and out: "files s' (os_path_join ''output'' (''test'' @ ''_hex.png'')) = Some (Image_data out)"
    and sz: "width src = height src \<longrightarrow>
        int (width out) = int (width src) + 2 * padding_factor (width src) \<and>
        int (height out) = int (width src) + 2 * padding_factor (width src)"
    by blast
  have "src = test_image" using src by (simp add: test_world_def)
  then have "width src = 100" "height src = 100" by (simp_all add: test_image_def)
  with sz out have "files s' ''output/test_hex.png'' = Some (Image_data out) \<and>
     width out = 116 \<and> height out = 116"
    by (simp add: os_path_join_def padding_factor_100)
  with run show ?thesis by blast
qed

text \<open>
  Claim C3. When \<open>polycut\<close> finds a source file and returns, the last two images it
  made are the padded image and the output image, and the output image is the one
  written to \<open><directory>/<name>_hex.png\<close>. They have the same size; at every pixel
  the red, green and blue values of the output are those of the padded image, and the
  alpha value is the mask value times 255: 255 where the rasteriser set the mask, 0
  elsewhere.
\<close>

theorem polycut_rgb_preserved:
  fixes s :: "rgba world"
  assumes run: "polycut draw s name directory = Inr s'"
    and found: "find (os_path_isfile s)
                    (map (\<lambda>ext. os_path_join directory name @ ext) [''.png'', ''.jpeg'', ''.jpg''])
                  = Some file_name"
  shows "\<exists>src padded out polygon mask_array.
     files s file_name = Some (Image_data src) \<and>
     padded = with_margin (post_crop src)
                (padding_factor (width (post_crop src))) (padding_factor (width (post_crop src)))
                (padding_factor (width (post_crop src))) (padding_factor (width (post_crop src)))
                white \<and>
     polygon = hexagon (real (min (width src) (height src)) *
                        geometry_factor (width (post_crop src)) (height (post_crop src)))
                 (width padded) (height padded) \<and>
     mask_array = polygon_mask draw polygon (width padded) (height padded) \<and>
     images s' = images s @ [src] @
                   (if height src < width src then [post_crop src] else []) @ [padded, out] \<and>
     files s' (os_path_join directory (name @ ''_hex.png'')) = Some (Image_data out) \<and>
     width out = width padded \<and> height out = height padded \<and>
     (\<forall>x y. x < width out \<and> y < height out \<longrightarrow>
        red (getpixel out x y) = red (getpixel padded x y) \<and>
        green (getpixel out x y) = green (getpixel padded x y) \<and>
        blue (getpixel out x y) = blue (getpixel padded x y) \<and>
        alpha (getpixel out x y) = mask_array ! y ! x * 255 \<and>
        alpha (getpixel out x y) = (if draw polygon x y then 255 else 0))"
proof -
  from polycut_Inr_found [OF run found]
  obtain src s3 im' where src: "files s file_name = Some (Image_data src)"
    and sq: "square_crop (s\<lparr>images := images s @ [src],
                             logged := logged s @ [(INFO, Processing_image name directory)]\<rparr>)
               (length (images s)) = Inr (s3, im')" by blast
  define cropped where "cropped = post_crop src"
  define pf where "pf = padding_factor (width cropped)"
  define padded where "padded = with_margin cropped pf pf pf pf white"
  define polygon where "polygon = hexagon (real (min (width src) (height src)) *
                   geometry_factor (width cropped) (height cropped))
            (width padded) (height padded)"
  define mask_array where "mask_array = polygon_mask draw polygon (width padded) (height padded)"
  define out where "out = apply_alpha padded mask_array"
  have fin: "images s' = images s @ [src] @
                   (if height src < width src then [cropped] else []) @ [padded, out] \<and>
     files s' (os_path_join directory (name @ ''_hex.png'')) = Some (Image_data out)"
    using run unfolding polycut_result [OF found src sq] Let_def
    by (auto simp add: out_def mask_array_def polygon_def padded_def pf_def cropped_def
        split: if_splits)
  have sz: "width out = width padded" "height out = height padded"
    by (simp_all add: out_def size_apply_alpha)
  have px: "red (getpixel out x y) = red (getpixel padded x y) \<and>
        green (getpixel out x y) = green (getpixel padded x y) \<and>
        blue (getpixel out x y) = blue (getpixel padded x y) \<and>
        alpha (getpixel out x y) = mask_array ! y ! x * 255 \<and>
        alpha (getpixel out x y) = (if draw polygon x y then 255 else 0)"
    if "x < width out" "y < height out" for x y
  proof -
    have xy: "x < width padded" "y < height padded" using that sz by simp_all
    show ?thesis
      unfolding out_def getpixel_apply_alpha [OF xy]
      by (simp add: mask_array_def polygon_mask_nth [OF xy])
  qed
  show ?thesis
    using src fin sz px
    unfolding padded_def polygon_def mask_array_def pf_def cropped_def
    by blast
qed

theorem polycut_rgb_preserved_witness:
  "\<exists>s' padded out.
     polycut draw_triangle test_world ''test'' ''output'' = Inr s' \<and>
     images s' = [test_image, padded, out] \<and>
     files s' ''output/test_hex.png'' = Some (Image_data out) \<and>
     width out = 116 \<and> height out = 116 \<and>
     red (getpixel out 0 0) = red (getpixel padded 0 0) \<and>
     green (getpixel out 0 0) = green (getpixel padded 0 0) \<and>
     blue (getpixel out 0 0) = blue (getpixel padded 0 0) \<and>
     alpha (getpixel out 0 0) = 255 \<and> alpha (getpixel out 115 115) = 0"
proof -
  obtain s' where run: "polycut draw_triangle test_world ''test'' ''output'' = Inr s'"
    using test_world_succeeds by blast
  from polycut_rgb_preserved [OF run test_world_found]
  obtain src padded out polygon mask_array
    where src: "files test_world ''output/test.png'' = Some (Image_data src)"
      and padded: "padded = with_margin (post_crop src)
                (padding_factor (width (post_crop src))) (padding_factor (width (post_crop src)))
                (padding_factor (width (post_crop src))) (padding_factor (width (post_crop src)))
                white"
      and im: "images s' = images test_world @ [src] @
                   (if height src < width src then [post_crop src] else []) @ [padded, out]"
      and out: "files s' (os_path_join ''output'' (''test'' @ ''_hex.png'')) = Some (Image_data out)"
      and sz: "width out = width padded" "height out = height padded"
      and px: "\<forall>x y. x < width out \<and> y < height out \<longrightarrow>
        red (getpixel out x y) = red (getpixel padded x y) \<and>
        green (getpixel out x y) = green (getpixel padded x y) \<and>
        blue (getpixel out x y) = blue (getpixel padded x y) \<and>
        alpha (getpixel out x y) = mask_array ! y ! x * 255 \<and>
        alpha (getpixel out x y) = (if draw_triangle polygon x y then 255 else 0)"
    by blast
  have s: "src = test_image" using src by (simp add: test_world_def)
  have wh: "width test_image = 100" "height test_image = 100" by (simp_all add: test_image_def)
  have sz': "width out = 116" "height out = 116"
    using sz by (simp_all add: padded s post_crop_test_image size_with_margin wh padding_factor_100)
  have "images s' = [test_image, padded, out]"
    using im by (simp add: s wh test_world_def)
  moreover have "files s' ''output/test_hex.png'' = Some (Image_data out)"
    using out by (simp add: os_path_join_def)
  moreover have "red (getpixel out 0 0) = red (getpixel padded 0 0) \<and>
     green (getpixel out 0 0) = green (getpixel padded 0 0) \<and>
     blue (getpixel out 0 0) = blue (getpixel padded 0 0) \<and>
     alpha (getpixel out 0 0) = 255"
  proof -
    have d: "draw_triangle polygon 0 0" by (simp add: draw_triangle_def)
    have i: "0 < width out \<and> 0 < height out" using sz' by simp
    from px [rule_format, OF i] d show ?thesis by metis
  qed
  moreover have "alpha (getpixel out 115 115) = 0"
  proof -
    have d: "\<not> draw_triangle polygon 115 115" by (simp add: draw_triangle_def)
    have i: "115 < width out \<and> 115 < height out" using sz' by simp
    from px [rule_format, OF i] d show ?thesis by metis
  qed
  ultimately show ?thesis using run sz' by blast
qed

text \<open>
  Claim C4. The polygon has exactly 6 vertices; vertex \<open>i\<close> is
  \<open>(r cos \<theta> + padded_width / 2, r sin \<theta> + padded_height * 0.89 / 2)\<close> at the angle
  \<open>\<theta> = i * 2 pi / 6\<close>; every vertex is at the distance \<open>r\<close> from the center
  \<open>(padded_width / 2, padded_height * 0.89 / 2)\<close> (the radius of \<open>polycut\<close> is never
  negative); and turning a vertex by 60 degrees about the center gives the next one, the
  last one giving the first. The angles and coordinates are the real numbers that the
  doubles of the program approximate.
\<close>

theorem hexagon_vertices:
  fixes r :: real
  defines "cx \<equiv> \<lambda>pw. real pw / 2"
    and "cy \<equiv> \<lambda>ph. real ph * 0.89 / 2"
  shows "length (hexagon r pw ph) = 6 \<and>
     (\<forall>i<6. hexagon r pw ph ! i =
        (r * cos (real i * 2 * pi / 6) + cx pw, r * sin (real i * 2 * pi / 6) + cy ph)) \<and>
     (\<forall>i<6. (fst (hexagon r pw ph ! i) - cx pw)\<^sup>2 + (snd (hexagon r pw ph ! i) - cy ph)\<^sup>2 = r\<^sup>2 \<and>
            (0 \<le> r \<longrightarrow>
               sqrt ((fst (hexagon r pw ph ! i) - cx pw)\<^sup>2 +
                     (snd (hexagon r pw ph ! i) - cy ph)\<^sup>2) = r)) \<and>
     (\<forall>i<6. hexagon r pw ph ! ((i + 1) mod 6) =
        (cx pw + (fst (hexagon r pw ph ! i) - cx pw) * cos (pi / 3)
               - (snd (hexagon r pw ph ! i) - cy ph) * sin (pi / 3),
         cy ph + (fst (hexagon r pw ph ! i) - cx pw) * sin (pi / 3)
               + (snd (hexagon r pw ph ! i) - cy ph) * cos (pi / 3))) \<and>
     (\<forall>n wd ht. 0 \<le> real n * geometry_factor wd ht)"
proof -
  have len: "length (hexagon r pw ph) = 6" by (simp add: hexagon_map)
  have v: "hexagon r pw ph ! i =
        (r * cos (real i * 2 * pi / 6) + cx pw, r * sin (real i * 2 * pi / 6) + cy ph)"
    if "i < 6" for i
    using that unfolding hexagon_map cx_def cy_def by (simp only: nth_map_upt) simp
  have sq: "(fst (hexagon r pw ph ! i) - cx pw)\<^sup>2 + (snd (hexagon r pw ph ! i) - cy ph)\<^sup>2 = r\<^sup>2"
    if "i < 6" for i
  proof -
    have "(r * cos t)\<^sup>2 + (r * sin t)\<^sup>2 = r\<^sup>2" for t :: real
    proof -
      have "(r * cos t)\<^sup>2 + (r * sin t)\<^sup>2 = r\<^sup>2 * ((cos t)\<^sup>2 + (sin t)\<^sup>2)"
        by (simp only: power_mult_distrib distrib_left)
      also have "\<dots> = r\<^sup>2" by simp
      finally show ?thesis .
    qed
    then show ?thesis by (simp add: v [OF that])
  qed
  have dist: "sqrt ((fst (hexagon r pw ph ! i) - cx pw)\<^sup>2 +
                     (snd (hexagon r pw ph ! i) - cy ph)\<^sup>2) = r"
    if "i < 6" "0 \<le> r" for i
    unfolding sq [OF that(1)] using that(2) by simp
  have rot: "hexagon r pw ph ! ((i + 1) mod 6) =
        (cx pw + (fst (hexagon r pw ph ! i) - cx pw) * cos (pi / 3)
               - (snd (hexagon r pw ph ! i) - cy ph) * sin (pi / 3),
         cy ph + (fst (hexagon r pw ph ! i) - cx pw) * sin (pi / 3)
               + (snd (hexagon r pw ph ! i) - cy ph) * cos (pi / 3))"
    if i: "i < 6" for i
  proof -
    let ?t = "real i * 2 * pi / 6"
    have next_angle: "cos (real ((i + 1) mod 6) * 2 * pi / 6) = cos (?t + pi / 3) \<and>
                      sin (real ((i + 1) mod 6) * 2 * pi / 6) = sin (?t + pi / 3)"
    proof (cases "i = 5")
      case True
      have "?t + pi / 3 = 2 * pi" using True by simp
      then show ?thesis using True by simp
    next
      case False
      then have "(i + 1) mod 6 = i + 1" using i by simp
      then have "real ((i + 1) mod 6) * 2 * pi / 6 = real (i + 1) * 2 * pi / 6" by simp
      also have "\<dots> = ?t + pi / 3" by (simp add: field_simps)
      finally show ?thesis by (simp only: simp_thms)
    qed
    have m: "(i + 1) mod 6 < 6" by simp
    show ?thesis
      unfolding v [OF m] v [OF i] fst_conv snd_conv
      using next_angle
      by (simp only: cos_add sin_add) (simp add: algebra_simps)
  qed
  show ?thesis
    using len v sq dist rot radius_nonneg by blast
qed

theorem hexagon_vertices_witness:
  "length (hexagon 50 116 116) = 6 \<and>
   hexagon 50 116 116 ! 0 = (108, 51.62) \<and>
   sqrt ((fst (hexagon 50 116 116 ! 0) - 58)\<^sup>2 + (snd (hexagon 50 116 116 ! 0) - 51.62)\<^sup>2) = 50 \<and>
   hexagon 50 116 116 ! 1 = (58 + 50 * cos (pi / 3), 51.62 + 50 * sin (pi / 3))"
proof -
  note h = hexagon_vertices [of 50 116 116]
  have z: "(0::nat) < 6" by simp
  have len: "length (hexagon 50 116 116) = 6" using h by (rule conjunct1)
  have v0: "hexagon 50 116 116 ! 0 = (108, 51.62)"
    using h [THEN conjunct2, THEN conjunct1, rule_format, OF z] by simp
  have d0: "sqrt ((fst (hexagon 50 116 116 ! 0) - 58)\<^sup>2 +
                  (snd (hexagon 50 116 116 ! 0) - 51.62)\<^sup>2) = 50"
    using h [THEN conjunct2, THEN conjunct2, THEN conjunct1, rule_format, OF z, THEN conjunct2]
    by simp
  have v1: "hexagon 50 116 116 ! 1 = (58 + 50 * cos (pi / 3), 51.62 + 50 * sin (pi / 3))"
    using h [THEN conjunct2, THEN conjunct2, THEN conjunct2, THEN conjunct1, rule_format, OF z]
    unfolding v0 by simp
  from len v0 d0 v1 show ?thesis by blast
qed




text \<open>
  Claim C6. When \<open>polycut\<close> finds a source file and returns, the polygon it rasterises
  is \<open>hexagon r\<close> on the padded canvas with \<open>r = dim * factor\<close>, where \<open>dim\<close> is the
  smaller side of the image as loaded (before the crop) and \<open>factor\<close> is \<open>1 / sqrt 3\<close>
  when the image after the crop is wider than high and \<open>1 / 2\<close> otherwise.
\<close>

theorem polycut_radius:
  fixes s :: "rgba world"
  assumes run: "polycut draw s name directory = Inr s'"
    and found: "find (os_path_isfile s)
                    (map (\<lambda>ext. os_path_join directory name @ ext) [''.png'', ''.jpeg'', ''.jpg''])
                  = Some file_name"
  shows "\<exists>src padded factor r.
     files s file_name = Some (Image_data src) \<and>
     padded = with_margin (post_crop src)
                (padding_factor (width (post_crop src))) (padding_factor (width (post_crop src)))
                (padding_factor (width (post_crop src))) (padding_factor (width (post_crop src)))
                white \<and>
     factor = (if height (post_crop src) < width (post_crop src) then 1 / sqrt 3 else 1 / 2) \<and>
     geometry_factor (width (post_crop src)) (height (post_crop src)) = factor \<and>
     r = real (min (width src) (height src)) * factor \<and>
     files s' (os_path_join directory (name @ ''_hex.png'')) =
       Some (Image_data (apply_alpha padded
               (polygon_mask draw (hexagon r (width padded) (height padded))
                  (width padded) (height padded))))"
proof -
  from polycut_Inr_found [OF run found]
  obtain src s3 im' where src: "files s file_name = Some (Image_data src)"
    and sq: "square_crop (s\<lparr>images := images s @ [src],
                             logged := logged s @ [(INFO, Processing_image name directory)]\<rparr>)
               (length (images s)) = Inr (s3, im')" by blast
  define cropped where "cropped = post_crop src"
  define pf where "pf = padding_factor (width cropped)"
  define padded where "padded = with_margin cropped pf pf pf pf white"
  define factor :: real where
    "factor = (if height cropped < width cropped then 1 / sqrt 3 else 1 / 2)"
  have gf: "geometry_factor (width cropped) (height cropped) = factor"
    by (simp add: geometry_factor_def factor_def)
  have "files s' (os_path_join directory (name @ ''_hex.png'')) =
       Some (Image_data (apply_alpha padded
               (polygon_mask draw
                  (hexagon (real (min (width src) (height src)) * factor)
                     (width padded) (height padded))
                  (width padded) (height padded))))"
    using run unfolding polycut_result [OF found src sq] Let_def
    by (auto simp add: padded_def pf_def gf [symmetric] cropped_def split: if_splits)
  with src gf show ?thesis
    unfolding padded_def pf_def factor_def cropped_def by blast
qed

theorem polycut_radius_witness:
  "\<exists>s'. polycut draw_triangle test_world ''test'' ''output'' = Inr s' \<and>
     files s' ''output/test_hex.png'' =
       Some (Image_data (apply_alpha (with_margin test_image 8 8 8 8 white)
               (polygon_mask draw_triangle (hexagon 50 116 116) 116 116)))"
proof -
  obtain s' where run: "polycut draw_triangle test_world ''test'' ''output'' = Inr s'"
    using test_world_succeeds by blast
  from polycut_radius [OF run test_world_found]
  obtain src padded factor r
    where src: "files test_world ''output/test.png'' = Some (Image_data src)"
      and padded: "padded = with_margin (post_crop src)
                (padding_factor (width (post_crop src))) (padding_factor (width (post_crop src)))
                (padding_factor (width (post_crop src))) (padding_factor (width (post_crop src)))
                white"
      and factor: "factor = (if height (post_crop src) < width (post_crop src)
                             then 1 / sqrt 3 else 1 / 2)"
      and r: "r = real (min (width src) (height src)) * factor"
      and out: "files s' (os_path_join ''output'' (''test'' @ ''_hex.png'')) =
         Some (Image_data (apply_alpha padded
               (polygon_mask draw_triangle (hexagon r (width padded) (height padded))
                  (width padded) (height padded))))"
    by blast
  have s: "src = test_image" using src by (simp add: test_world_def)
  have wh: "width test_image = 100" "height test_image = 100" by (simp_all add: test_image_def)
  have p: "padded = with_margin test_image 8 8 8 8 white"
    by (simp add: padded s post_crop_test_image wh padding_factor_100)
  have sz: "width padded = 116" "height padded = 116"
    by (simp_all add: p size_with_margin wh)
  have r50: "r = 50" by (simp add: r factor s post_crop_test_image wh)
  have "files s' ''output/test_hex.png'' =
       Some (Image_data (apply_alpha (with_margin test_image 8 8 8 8 white)
               (polygon_mask draw_triangle (hexagon 50 116 116) 116 116)))"
    using out unfolding sz r50 unfolding p by (simp add: os_path_join_def)
  with run show ?thesis by blast
qed

text \<open>
  Claim C7. When none of \<open><directory>/<name>.png\<close>, \<open>.jpeg\<close>, \<open>.jpg\<close> is a
  file, \<open>polycut\<close> logs the error and returns normally; it makes no image and leaves
  the file system as it was, so no \<open><name>_hex.png\<close> is created.
\<close>

theorem polycut_not_found:
  fixes s :: "rgba world"
  assumes "\<forall>ext \<in> set [''.png'', ''.jpeg'', ''.jpg''].
             \<not> os_path_isfile s (os_path_join directory name @ ext)"
  shows "\<exists>s'. polycut draw s name directory = Inr s' \<and>
           s' = s\<lparr>logged := logged s @ [(INFO, Processing_image name directory),
                                         (ERROR, Image_file_not_found name directory)]\<rparr> \<and>
           files s' = files s \<and> images s' = images s \<and>
           files s' (os_path_join directory (name @ ''_hex.png'')) =
             files s (os_path_join directory (name @ ''_hex.png''))"
proof -
  have "find (os_path_isfile s)
          (map (\<lambda>ext. os_path_join directory name @ ext) [''.png'', ''.jpeg'', ''.jpg'']) = None"
    using assms by simp
  then have "polycut draw s name directory =
      Inr (s\<lparr>logged := logged s @ [(INFO, Processing_image name directory),
                                   (ERROR, Image_file_not_found name directory)]\<rparr>)"
    unfolding polycut_def Let_def os_path_isfile_logging_info
    by (simp add: logging_error_def logging_info_def)
  then show ?thesis by simp
qed

theorem polycut_not_found_witness:
  "polycut draw_triangle test_world ''missing'' ''output'' =
     Inr (test_world\<lparr>logged := [(INFO, Processing_image ''missing'' ''output''),
                                 (ERROR, Image_file_not_found ''missing'' ''output'')]\<rparr>) \<and>
   files test_world ''output/missing_hex.png'' = None"
proof -
  have "\<forall>ext \<in> set [''.png'', ''.jpeg'', ''.jpg''].
          \<not> os_path_isfile test_world (os_path_join ''output'' ''missing'' @ ext)"
    by (simp add: os_path_isfile_def os_path_join_def test_world_def)
  from polycut_not_found [OF this, of draw_triangle]
  show ?thesis by (auto simp add: test_world_def)
qed

text \<open>
  Claim C8, as stated, fails: with both \<open>output/test.png\<close> and \<open>output/test.jpg\<close>
  present, \<open>polycut\<close> is not aborted; it loads the first and writes the output.
\<close>

theorem lookup_two_candidates_counterexample:
  "os_path_isfile two_candidates_world (os_path_join ''output'' ''test'' @ ''.png'') \<and>
   os_path_isfile two_candidates_world (os_path_join ''output'' ''test'' @ ''.jpg'') \<and>
   polycut draw_triangle two_candidates_world ''test'' ''output'' =
     Inr \<lparr>memory = test_memory, images = [test_image, with_margin test_image 8 8 8 8 white, test_hex_image],
          files = (files two_candidates_world)(''output/test_hex.png'' \<mapsto> Image_data test_hex_image),
          logged = [(INFO, Processing_image ''test'' ''output''),
                    (INFO, Adding_margin 8 8 8 8 white),
                    (INFO, Saved_hexagonal_image ''output/test_hex.png'')]\<rparr>"
  using polycut_two_candidates
  by (simp add: two_candidates_world_def test_world_def os_path_isfile_def os_path_join_def)

text \<open>
  Claim C8, amended. The lookup tries \<open>.png\<close>, \<open>.jpeg\<close>, \<open>.jpg\<close> in this order and
  takes the first candidate that is a file, whether or not a later one exists; a run
  that returns has loaded the image of that file; and the operation ends with the
  not-found report exactly when no candidate is a file.
\<close>

theorem polycut_first_match:
  fixes s :: "rgba world"
  shows "find (os_path_isfile s)
           (map (\<lambda>ext. os_path_join directory name @ ext) [''.png'', ''.jpeg'', ''.jpg'']) =
         (if os_path_isfile s (os_path_join directory name @ ''.png'')
          then Some (os_path_join directory name @ ''.png'')
          else if os_path_isfile s (os_path_join directory name @ ''.jpeg'')
          then Some (os_path_join directory name @ ''.jpeg'')
          else if os_path_isfile s (os_path_join directory name @ ''.jpg'')
          then Some (os_path_join directory name @ ''.jpg'')
          else None) \<and>
         (\<forall>file_name s'.
            find (os_path_isfile s)
              (map (\<lambda>ext. os_path_join directory name @ ext) [''.png'', ''.jpeg'', ''.jpg''])
              = Some file_name \<and>
            polycut draw s name directory = Inr s' \<longrightarrow>
            (\<exists>src. files s file_name = Some (Image_data src) \<and>
                   images s' ! length (images s) = src \<and>
                   files s' (os_path_join directory (name @ ''_hex.png'')) \<noteq> None)) \<and>
         (polycut draw s name directory =
            Inr (s\<lparr>logged := logged s @ [(INFO, Processing_image name directory),
                                         (ERROR, Image_file_not_found name directory)]\<rparr>)
          \<longleftrightarrow>
          \<not> os_path_isfile s (os_path_join directory name @ ''.png'') \<and>
          \<not> os_path_isfile s (os_path_join directory name @ ''.jpeg'') \<and>
          \<not> os_path_isfile s (os_path_join directory name @ ''.jpg''))"
proof -
  let ?cands = "map (\<lambda>ext. os_path_join directory name @ ext) [''.png'', ''.jpeg'', ''.jpg'']"
  let ?nf = "s\<lparr>logged := logged s @ [(INFO, Processing_image name directory),
                                      (ERROR, Image_file_not_found name directory)]\<rparr>"
  have first: "find (os_path_isfile s) ?cands =
         (if os_path_isfile s (os_path_join directory name @ ''.png'')
          then Some (os_path_join directory name @ ''.png'')
          else if os_path_isfile s (os_path_join directory name @ ''.jpeg'')
          then Some (os_path_join directory name @ ''.jpeg'')
          else if os_path_isfile s (os_path_join directory name @ ''.jpg'')
          then Some (os_path_join directory name @ ''.jpg'')
          else None)"
    by simp
  have loaded: "\<exists>src. files s file_name = Some (Image_data src) \<and>
                   images s' ! length (images s) = src \<and>
                   files s' (os_path_join directory (name @ ''_hex.png'')) \<noteq> None \<and>
                   s' \<noteq> ?nf"
    if found: "find (os_path_isfile s) ?cands = Some file_name"
      and run: "polycut draw s name directory = Inr s'" for file_name s'
  proof -
    from polycut_Inr_found [OF run found]
    obtain src s3 im' where src: "files s file_name = Some (Image_data src)"
      and sq: "square_crop (s\<lparr>images := images s @ [src],
                             logged := logged s @ [(INFO, Processing_image name directory)]\<rparr>)
               (length (images s)) = Inr (s3, im')" by blast
    have "images s' ! length (images s) = src \<and>
          files s' (os_path_join directory (name @ ''_hex.png'')) \<noteq> None \<and>
          last (logged s') = (INFO, Saved_hexagonal_image (os_path_join directory (name @ ''_hex.png'')))"
      using run unfolding polycut_result [OF found src sq] Let_def
      by (auto split: if_splits)
    moreover have "last (logged ?nf) = (ERROR, Image_file_not_found name directory)" by simp
    ultimately show ?thesis using src by auto
  qed
  have none: "polycut draw s name directory = Inr ?nf"
    if "find (os_path_isfile s) ?cands = None"
    using that unfolding polycut_def Let_def os_path_isfile_logging_info
    by (simp add: logging_error_def logging_info_def)
  have iff: "polycut draw s name directory = Inr ?nf \<longleftrightarrow>
          \<not> os_path_isfile s (os_path_join directory name @ ''.png'') \<and>
          \<not> os_path_isfile s (os_path_join directory name @ ''.jpeg'') \<and>
          \<not> os_path_isfile s (os_path_join directory name @ ''.jpg'')"
  proof
    assume run: "polycut draw s name directory = Inr ?nf"
    have "find (os_path_isfile s) ?cands = None"
    proof (rule ccontr)
      assume "find (os_path_isfile s) ?cands \<noteq> None"
      then obtain file_name where "find (os_path_isfile s) ?cands = Some file_name" by blast
      from loaded [OF this run] show False by blast
    qed
    then show "\<not> os_path_isfile s (os_path_join directory name @ ''.png'') \<and>
          \<not> os_path_isfile s (os_path_join directory name @ ''.jpeg'') \<and>
          \<not> os_path_isfile s (os_path_join directory name @ ''.jpg'')"
      by (simp split: if_splits)
  next
    assume "\<not> os_path_isfile s (os_path_join directory name @ ''.png'') \<and>
          \<not> os_path_isfile s (os_path_join directory name @ ''.jpeg'') \<and>
          \<not> os_path_isfile s (os_path_join directory name @ ''.jpg'')"
    then have "find (os_path_isfile s) ?cands = None" by simp
    then show "polycut draw s name directory = Inr ?nf" by (rule none)
  qed
  show ?thesis
    using first loaded iff by blast
qed

theorem polycut_first_match_witness:
  "\<exists>s'. find (os_path_isfile two_candidates_world)
           (map (\<lambda>ext. os_path_join ''output'' ''test'' @ ext) [''.png'', ''.jpeg'', ''.jpg''])
         = Some ''output/test.png'' \<and>
        os_path_isfile two_candidates_world ''output/test.jpg'' \<and>
        polycut draw_triangle two_candidates_world ''test'' ''output'' = Inr s' \<and>
        images s' ! 0 = test_image \<and> files s' ''output/test_hex.png'' \<noteq> None"
proof -
  let ?s' = "\<lparr>memory = test_memory, images = [test_image, with_margin test_image 8 8 8 8 white, test_hex_image],
          files = (files two_candidates_world)(''output/test_hex.png'' \<mapsto> Image_data test_hex_image),
          logged = [(INFO, Processing_image ''test'' ''output''),
                    (INFO, Adding_margin 8 8 8 8 white),
                    (INFO, Saved_hexagonal_image ''output/test_hex.png'')]\<rparr>"
  have run: "polycut draw_triangle two_candidates_world ''test'' ''output'' = Inr ?s'"
    by (rule polycut_two_candidates)
  have jpg: "os_path_isfile two_candidates_world ''output/test.jpg''"
    by (simp add: two_candidates_world_def os_path_isfile_def)
  from polycut_first_match [of two_candidates_world "''output''" "''test''" draw_triangle]
  have "\<forall>file_name s'.
            find (os_path_isfile two_candidates_world)
              (map (\<lambda>ext. os_path_join ''output'' ''test'' @ ext) [''.png'', ''.jpeg'', ''.jpg''])
              = Some file_name \<and>
            polycut draw_triangle two_candidates_world ''test'' ''output'' = Inr s' \<longrightarrow>
            (\<exists>src. files two_candidates_world file_name = Some (Image_data src) \<and>
                   images s' ! length (images two_candidates_world) = src \<and>
                   files s' (os_path_join ''output'' (''test'' @ ''_hex.png'')) \<noteq> None)"
    by blast
  from this [rule_format, of "''output/test.png''" ?s'] two_candidates_found run
  obtain src where "files two_candidates_world ''output/test.png'' = Some (Image_data src)"
    and "images ?s' ! length (images two_candidates_world) = src"
    and "files ?s' (os_path_join ''output'' (''test'' @ ''_hex.png'')) \<noteq> None"
    by blast
  then have "images ?s' ! 0 = test_image \<and> files ?s' ''output/test_hex.png'' \<noteq> None"
    by (simp add: two_candidates_world_def test_world_def)
  with two_candidates_found jpg run show ?thesis by blast
qed

text \<open>
  Claim C9, as stated, fails: \<open>add_margin\<close> with the left margin \<open>-1\<close> on an image of
  two pixels is not rejected; it returns an image of one pixel, the input clipped.
\<close>

theorem add_margin_negative_counterexample:
  "add_margin two_pixel_world 0 0 0 0 (- 1) 0 =
     Inr (\<lparr>memory = test_memory, images = [\<lparr>width = 2, height = 1, rows = [[5, 7]]\<rparr>,
                      \<lparr>width = 1, height = 1, rows = [[7]]\<rparr>],
           files = Map.empty,
           logged = [(INFO, Adding_margin 0 0 0 (- 1) 0)]\<rparr>, 1)"
  by (simp add: add_margin_def Image_new_def paste_def paste_pixels_def logging_info_def
      two_pixel_world_def getpixel_def Let_def c_int_def test_memory_def)

text \<open>
  Claim C9, amended. \<open>add_margin\<close> does not look at the sign of a margin. It raises
  ValueError exactly when \<open>w + left + right\<close> or \<open>h + top + bottom\<close> is negative.
  When that size is not negative, it raises OverflowError if a side does not fit a C int
  and MemoryError if the machine cannot allocate the image; with the image made, it
  raises OverflowError if a corner of the box \<open>(left, top, left + w, top + h)\<close> that
  \<open>paste\<close> is given does not fit a C int. In every other case it returns a new image of
  that size, in which the pixels covered by the input placed at \<open>(left, top)\<close> are the
  input's (the rest of the input is clipped away) and every other pixel is the fill color.
\<close>

theorem add_margin_any_margins:
  assumes "pil_img < length (images s)"
  shows
    "let w = int (width (images s ! pil_img)); h = int (height (images s ! pil_img));
         new_width = w + mright + mleft; new_height = h + mtop + mbottom;
         made = (0 \<le> new_width \<and> new_width < 2 ^ 31 \<and> 0 \<le> new_height \<and> new_height < 2 ^ 31 \<and>
                 memory s (nat new_width) (nat new_height));
         box_fits = (c_int mleft \<and> c_int mtop \<and> c_int (mleft + w) \<and> c_int (mtop + h))
     in (new_width < 0 \<or> new_height < 0 \<longrightarrow>
           add_margin s pil_img mtop mright mbottom mleft color = Inl ValueError) \<and>
        (0 \<le> new_width \<and> 0 \<le> new_height \<and> (2 ^ 31 \<le> new_width \<or> 2 ^ 31 \<le> new_height) \<longrightarrow>
           add_margin s pil_img mtop mright mbottom mleft color = Inl OverflowError) \<and>
        (0 \<le> new_width \<and> new_width < 2 ^ 31 \<and> 0 \<le> new_height \<and> new_height < 2 ^ 31 \<and>
         \<not> memory s (nat new_width) (nat new_height) \<longrightarrow>
           add_margin s pil_img mtop mright mbottom mleft color = Inl MemoryError) \<and>
        (made \<and> \<not> box_fits \<longrightarrow>
           add_margin s pil_img mtop mright mbottom mleft color = Inl OverflowError) \<and>
        (made \<and> box_fits \<longrightarrow>
           (\<exists>s' result.
              add_margin s pil_img mtop mright mbottom mleft color = Inr (s', result) \<and>
              result = length (images s) \<and>
              int (width (images s' ! result)) = w + mleft + mright \<and>
              int (height (images s' ! result)) = h + mtop + mbottom \<and>
              (\<forall>x y. x < width (images s' ! result) \<and> y < height (images s' ! result) \<longrightarrow>
                 getpixel (images s' ! result) x y =
                   (if mleft \<le> int x \<and> int x < mleft + w \<and> mtop \<le> int y \<and> int y < mtop + h
                    then getpixel (images s ! pil_img) (nat (int x - mleft)) (nat (int y - mtop))
                    else color)) \<and>
              images s' ! pil_img = images s ! pil_img))"
proof -
  let ?w = "int (width (images s ! pil_img))" and ?h = "int (height (images s ! pil_img))"
  let ?out = "with_margin (images s ! pil_img) mtop mright mbottom mleft color"
  have neg: "add_margin s pil_img mtop mright mbottom mleft color = Inl ValueError"
    if "?w + mright + mleft < 0 \<or> ?h + mtop + mbottom < 0"
    using that by (rule add_margin_Inl)
  have big: "add_margin s pil_img mtop mright mbottom mleft color = Inl OverflowError"
    if "0 \<le> ?w + mright + mleft" "0 \<le> ?h + mtop + mbottom"
       "2 ^ 31 \<le> ?w + mright + mleft \<or> 2 ^ 31 \<le> ?h + mtop + mbottom"
    using that by (rule add_margin_OverflowError)
  have mem: "add_margin s pil_img mtop mright mbottom mleft color = Inl MemoryError"
    if "0 \<le> ?w + mright + mleft" "0 \<le> ?h + mtop + mbottom"
       "?w + mright + mleft < 2 ^ 31" "?h + mtop + mbottom < 2 ^ 31"
       "\<not> memory s (nat (?w + mright + mleft)) (nat (?h + mtop + mbottom))"
    using that by (rule add_margin_MemoryError)
  have box: "add_margin s pil_img mtop mright mbottom mleft color = Inl OverflowError"
    if "0 \<le> ?w + mright + mleft" "0 \<le> ?h + mtop + mbottom"
       "?w + mright + mleft < 2 ^ 31" "?h + mtop + mbottom < 2 ^ 31"
       "memory s (nat (?w + mright + mleft)) (nat (?h + mtop + mbottom))"
       "\<not> (c_int mleft \<and> c_int mtop \<and> c_int (mleft + ?w) \<and> c_int (mtop + ?h))"
    using that assms by (rule add_margin_paste_OverflowError)
  have run: "\<exists>s' result.
       add_margin s pil_img mtop mright mbottom mleft color = Inr (s', result) \<and>
       result = length (images s) \<and>
       int (width (images s' ! result)) = ?w + mleft + mright \<and>
       int (height (images s' ! result)) = ?h + mtop + mbottom \<and>
       (\<forall>x y. x < width (images s' ! result) \<and> y < height (images s' ! result) \<longrightarrow>
          getpixel (images s' ! result) x y =
            (if mleft \<le> int x \<and> int x < mleft + ?w \<and> mtop \<le> int y \<and> int y < mtop + ?h
             then getpixel (images s ! pil_img) (nat (int x - mleft)) (nat (int y - mtop))
             else color)) \<and>
       images s' ! pil_img = images s ! pil_img"
    if nn: "0 \<le> ?w + mright + mleft" "0 \<le> ?h + mtop + mbottom"
      and "?w + mright + mleft < 2 ^ 31" "?h + mtop + mbottom < 2 ^ 31"
       "memory s (nat (?w + mright + mleft)) (nat (?h + mtop + mbottom))"
       "c_int mleft" "c_int mtop" "c_int (mleft + ?w)" "c_int (mtop + ?h)"
  proof -
    have eq: "add_margin s pil_img mtop mright mbottom mleft color =
       Inr (\<lparr>memory = memory s, images = images s @ [?out], files = files s,
             logged = logged s @ [(INFO, Adding_margin mtop mright mbottom mleft color)]\<rparr>,
            length (images s))"
      using that assms by (rule add_margin_with_margin)
    show ?thesis
      unfolding eq using nn assms
      by (simp add: nth_append size_with_margin getpixel_with_margin)
  qed
  show ?thesis
    unfolding Let_def
    using neg big mem box run by blast
qed

theorem add_margin_any_margins_witness:
  "add_margin two_pixel_world 0 0 0 0 (- 5) 0 = Inl ValueError \<and>
   add_margin two_pixel_world 0 0 (2 ^ 31) 0 0 0 = Inl OverflowError \<and>
   add_margin two_pixel_world 0 0 (2 ^ 13) (2 ^ 13) 0 0 = Inl MemoryError \<and>
   add_margin two_pixel_world 0 0 (- (2 ^ 31)) 0 (2 ^ 31) 0 = Inl OverflowError \<and>
   (\<exists>s' result. add_margin two_pixel_world 0 0 0 0 (- 1) 0 = Inr (s', result) \<and>
      width (images s' ! result) = 1 \<and> height (images s' ! result) = 1 \<and>
      getpixel (images s' ! result) 0 0 = 7)"
proof -
  have i: "0 < length (images two_pixel_world)" by (simp add: two_pixel_world_def)
  have wh: "width (images two_pixel_world ! 0) = 2" "height (images two_pixel_world ! 0) = 1"
    "memory two_pixel_world = test_memory"
    by (simp_all add: two_pixel_world_def)
  from add_margin_any_margins [OF i, of 0 "- 5" 0 0 0]
  have a: "add_margin two_pixel_world 0 0 0 0 (- 5) 0 = Inl ValueError"
    by (simp add: wh Let_def)
  from add_margin_any_margins [OF i, of "2 ^ 31" 0 0 0 0]
  have b: "add_margin two_pixel_world 0 0 (2 ^ 31) 0 0 0 = Inl OverflowError"
    by (simp add: wh Let_def)
  from add_margin_any_margins [OF i, of "2 ^ 13" 0 0 "2 ^ 13" 0]
  have c: "add_margin two_pixel_world 0 0 (2 ^ 13) (2 ^ 13) 0 0 = Inl MemoryError"
    by (simp add: wh Let_def test_memory_def)
  from add_margin_any_margins [OF i, of "- (2 ^ 31)" "2 ^ 31" 0 0 0]
  have d: "add_margin two_pixel_world 0 0 (- (2 ^ 31)) 0 (2 ^ 31) 0 = Inl OverflowError"
    by (simp add: wh Let_def test_memory_def c_int_def)
  from add_margin_any_margins [OF i, of 0 "- 1" 0 0 0]
  obtain s' result where run: "add_margin two_pixel_world 0 0 0 0 (- 1) 0 = Inr (s', result)"
    and w: "int (width (images s' ! result)) = int (width (images two_pixel_world ! 0)) + - 1 + 0"
    and h: "int (height (images s' ! result)) = int (height (images two_pixel_world ! 0)) + 0 + 0"
    and px: "\<forall>x y. x < width (images s' ! result) \<and> y < height (images s' ! result) \<longrightarrow>
                  getpixel (images s' ! result) x y =
                    (if - 1 \<le> int x \<and> int x < - 1 + int (width (images two_pixel_world ! 0)) \<and>
                        0 \<le> int y \<and> int y < 0 + int (height (images two_pixel_world ! 0))
                     then getpixel (images two_pixel_world ! 0) (nat (int x - - 1)) (nat (int y - 0))
                     else 0)"
    by (auto simp add: wh Let_def test_memory_def c_int_def)
  have sz: "width (images s' ! result) = 1" "height (images s' ! result) = 1"
    using w h by (simp_all add: wh)
  have "getpixel (images s' ! result) 0 0 = 7"
    using px [rule_format, of 0 0] sz
    by (simp add: wh) (simp add: two_pixel_world_def getpixel_def)
  with a b c d run sz show ?thesis by blast
qed

text \<open>
  Claim C10 fails on an image of 4 by 3 pixels. The box passed to \<open>im.crop\<close> is
  \<open>(0.5, 0, 3.5, 3)\<close>, which \<open>crop\<close> rounds to \<open>(0, 0, 4, 3)\<close>: the image after the
  crop is still 4 wide and 3 high, the factor is \<open>1 / sqrt 3\<close>, and the hexagon that
  \<open>polycut\<close> rasterises has the radius \<open>3 / sqrt 3\<close>, not \<open>3 / 2\<close>.
\<close>

theorem polycut_wide_image:
  "crop_box 4 3 = (1 / 2, 0, 7 / 2, 3) \<and>
   post_crop wide_image = crop_pixels wide_image (0, 0, 4, 3) \<and>
   width (post_crop wide_image) = 4 \<and> height (post_crop wide_image) = 3 \<and>
   geometry_factor (width (post_crop wide_image)) (height (post_crop wide_image)) = 1 / sqrt 3 \<and>
   geometry_factor (width (post_crop wide_image)) (height (post_crop wide_image)) \<noteq> 1 / 2 \<and>
   (\<exists>s'. polycut draw_triangle wide_world ''wide'' ''output'' = Inr s' \<and>
      images s' ! 1 = post_crop wide_image \<and>
      files s' ''output/wide_hex.png'' =
        Some (Image_data
          (apply_alpha (with_margin (post_crop wide_image) 0 0 0 0 white)
             (polygon_mask draw_triangle (hexagon (3 / sqrt 3) 4 3) 4 3))))"
proof -
  have sz: "width (post_crop wide_image) = 4" "height (post_crop wide_image) = 3"
    by (simp_all add: post_crop_wide_image size_crop_pixels)
  have gf: "geometry_factor (width (post_crop wide_image)) (height (post_crop wide_image))
              = 1 / sqrt 3"
    by (simp add: sz geometry_factor_def)
  have src: "files wide_world ''output/wide.png'' = Some (Image_data wide_image)"
    by (simp add: wide_world_def)
  have wh: "width wide_image = 4" "height wide_image = 3" by (simp_all add: wide_image_def)
  let ?s2 = "wide_world\<lparr>images := images wide_world @ [wide_image],
      logged := logged wide_world @ [(INFO, Processing_image ''wide'' ''output'')]\<rparr>"
  have "width (images ?s2 ! length (images wide_world)) < 2 ^ 52" by (simp add: wh)
  from square_crop_total [OF this]
  obtain s3 im' where sq: "square_crop ?s2 (length (images wide_world)) = Inr (s3, im')"
    by blast
  have fs: "files wide_world ''output'' = Some Directory"
    "files wide_world ''output/wide_hex.png'' = None"
    "images wide_world = []" "logged wide_world = []" "memory wide_world = test_memory"
    by (simp_all add: wide_world_def)
  have "\<exists>s'. polycut draw_triangle wide_world ''wide'' ''output'' = Inr s' \<and>
      images s' ! 1 = post_crop wide_image \<and>
      files s' ''output/wide_hex.png'' =
        Some (Image_data
          (apply_alpha (with_margin (post_crop wide_image) 0 0 0 0 white)
             (polygon_mask draw_triangle (hexagon (3 / sqrt 3) 4 3) 4 3)))"
    unfolding polycut_result [OF wide_world_found src sq] Let_def sz gf padding_factor_4 wh
    by (simp add: size_with_margin sz fs os_path_join_def geometry_factor_def test_memory_def)
  moreover have "geometry_factor (width (post_crop wide_image)) (height (post_crop wide_image))
                   \<noteq> 1 / 2"
  proof
    assume "geometry_factor (width (post_crop wide_image)) (height (post_crop wide_image)) = 1 / 2"
    then have "sqrt 3 = 2" unfolding gf by (simp add: field_simps)
    then have "(sqrt 3)\<^sup>2 = 2\<^sup>2" by simp
    then show False by simp
  qed
  ultimately show ?thesis using crop_box_4_3 post_crop_wide_image sz gf by blast
qed

end
